theory Spec2Isabelle
  imports Complex_Main "HOL-Library.Multiset"
begin

section \<open>Fund records, errors and the network\<close>

text \<open>
  The program under study is the Go fund monitor: \<^verbatim>\<open>FetchFund\<close> fetches and parses one
  fund, \<^verbatim>\<open>FetchFunds\<close> fans the fetches out over goroutines and collects the results,
  \<^verbatim>\<open>GenerateEmailHTML\<close> and \<^verbatim>\<open>GenerateServerChanMessage\<close> format them, and
  \<^verbatim>\<open>SendServerChan\<close> posts the webhook. The repository holds two versions of the file;
  the later one adds a context argument and the ServerChan webhook, and is the one embedded
  here. The functions present in both versions have the same bodies up to the context
  argument.

  Go strings are byte sequences: \<^verbatim>\<open>len\<close> and slicing count bytes. They are modelled by
  \<^typ>\<open>string\<close>, whose characters are bytes; non-ASCII text of the source is written as
  its UTF-8 bytes.

  A finite \<^verbatim>\<open>float64\<close> is modelled by the real number it denotes; not-a-number, the
  infinities and the sign of zero are not modelled. Comparisons of such values are exact.
  The two places where the program produces a \<^verbatim>\<open>float64\<close>, the conversion of decimal
  text by \<^verbatim>\<open>strconv.ParseFloat\<close> and the addition \<^verbatim>\<open>Gszzl+1\<close> in the sort key,
  round to the nearest binary64 value, and are modelled with that rounding.
\<close>

record Fund =
  FundCode :: string
  Name :: string
  JzRq :: string
  Dwjz :: real
  Gsz :: real
  Gszzl :: real
  Gztime :: string

text \<open>
  Errors are values. \<open>Lib msg\<close> is an error produced by a library call (net/http,
  encoding/json, strconv); \<open>Errorf cause msg\<close> is \<^verbatim>\<open>errors.Errorf(cause, msg)\<close> of
  the wrapping package, whose cause may be nil.
\<close>

datatype error = Lib string | Errorf "error option" string

text \<open>
  What the network does with one request: \<^verbatim>\<open>http.NewRequestWithContext\<close> fails,
  \<^verbatim>\<open>httpClient.Do\<close> fails (which includes the expiry of the context), or a response
  arrives with a status code and the outcome of \<^verbatim>\<open>ioutil.ReadAll\<close> on its body.
\<close>

datatype http_outcome = NewRequestFails error | DoFails error | Response nat "error + string"

section \<open>Rounding to binary64\<close>

text \<open>
  Rounding of a real to the nearest integer, ties to the even one.
\<close>

definition round_half_even :: "real \<Rightarrow> int" where
  "round_half_even y =
     (let n = \<lfloor>y\<rfloor>; r = y - of_int n
      in if r < 1 / 2 then n else if 1 / 2 < r then n + 1 else if even n then n else n + 1)"

text \<open>
  The binary exponent of a positive real: \<open>binade k x 0\<close> is the exponent \<open>e\<close> with
  \<^verbatim>\<open>2^e <= x < 2^(e+1)\<close>, found by halving or doubling at most \<open>k\<close> times.
\<close>

fun binade :: "nat \<Rightarrow> real \<Rightarrow> int \<Rightarrow> int" where
  "binade 0 x e = e"
| "binade (Suc k) x e =
     (if 2 \<le> x then binade k (x / 2) (e + 1)
      else if x < 1 then binade k (2 * x) (e - 1)
      else e)"

text \<open>
  The binary64 value nearest to a real, ties to even. Binary64 has 53 significant bits, so
  the spacing of its values in the binade of exponent \<open>e\<close> is \<^verbatim>\<open>2^(e-52)\<close>; below
  the least normal exponent \<open>-1022\<close> the spacing stays \<^verbatim>\<open>2^(-1074)\<close> (the subnormal
  values). The search of the exponent is given 2200 steps, more than the exponent range
  needs: a real of larger exponent rounds to a value that is out of range in any case, and a
  real of smaller exponent is rounded on the subnormal spacing in any case. A result of
  magnitude \<^verbatim>\<open>2^1024\<close> or more is out of the range of binary64.
\<close>

definition f64_round :: "real \<Rightarrow> real" where
  "f64_round x =
     (if x = 0 then 0
      else let e = max (binade 2200 \<bar>x\<bar> 0) (- 1022);
               ulp = 2 powi (e - 52)
           in of_int (round_half_even (x / ulp)) * ulp)"

text \<open>
  The sum of two \<^verbatim>\<open>float64\<close> values is the exact sum, rounded. (The only sum of the
  program adds 1 to a finite value, which cannot leave the range.)
\<close>

definition f64_add :: "real \<Rightarrow> real \<Rightarrow> real" where
  "f64_add x y = f64_round (x + y)"

section \<open>The single fetch\<close>

definition bodyPrefix :: string where
  "bodyPrefix = ''jsonpgz(''"

definition bodySuffix :: string where
  "bodySuffix = '');''"

text \<open>\<^verbatim>\<open>bytes.TrimPrefix\<close> and \<^verbatim>\<open>bytes.TrimSuffix\<close>.\<close>

definition bytes_TrimPrefix :: "string \<Rightarrow> string \<Rightarrow> string" where
  "bytes_TrimPrefix s prefix =
     (if take (length prefix) s = prefix then drop (length prefix) s else s)"

definition bytes_TrimSuffix :: "string \<Rightarrow> string \<Rightarrow> string" where
  "bytes_TrimSuffix s suffix =
     (if length suffix \<le> length s \<and> drop (length s - length suffix) s = suffix
      then take (length s - length suffix) s else s)"

subsection \<open>The fragment of \<^verbatim>\<open>json.Unmarshal\<close> that the upstream format needs\<close>

text \<open>
  \<^verbatim>\<open>json.Unmarshal(body, &fund)\<close> is a library function. It is modelled on the inputs
  of the shape the upstream service sends: one JSON object whose members are strings
  without escapes, made of printable ASCII, with optional white space between the tokens.
  On any other input the model answers \<open>None\<close>: the input is outside the modelled
  fragment, and nothing is said about what the library does with it. Within the fragment
  the answer is \<open>Some\<close> of what the library returns, an error or the decoded record.
\<close>

definition is_space :: "char \<Rightarrow> bool" where
  "is_space c = (c = CHR '' '' \<or> c = CHR 0x09 \<or> c = CHR 0x0D \<or> c = CHR 0x0A)"

definition is_digit :: "char \<Rightarrow> bool" where
  "is_digit c = (48 \<le> (of_char c :: nat) \<and> (of_char c :: nat) \<le> 57)"

definition digits_val :: "string \<Rightarrow> nat" where
  "digits_val ds = foldl (\<lambda>n c. 10 * n + (of_char c - 48)) 0 ds"

text \<open>
  The rest of a string literal after its opening quote: the bytes up to the closing quote,
  and the input after it. An escape, a control byte or a byte outside ASCII leaves the
  fragment.
\<close>

fun scan_plain :: "string \<Rightarrow> (string \<times> string) option" where
  "scan_plain [] = None"
| "scan_plain (c # cs) =
     (if c = CHR 0x22 then Some ([], cs)
      else if c = CHR 0x5C \<or> (of_char c :: nat) < 32 \<or> 127 \<le> (of_char c :: nat) then None
      else (case scan_plain cs of None \<Rightarrow> None | Some (s, rest) \<Rightarrow> Some (c # s, rest)))"

definition scan_string :: "string \<Rightarrow> (string \<times> string) option" where
  "scan_string cs =
     (case dropWhile is_space cs of
        [] \<Rightarrow> None
      | c # cs' \<Rightarrow> if c = CHR 0x22 then scan_plain cs' else None)"

definition expect :: "char \<Rightarrow> string \<Rightarrow> string option" where
  "expect c cs =
     (case dropWhile is_space cs of
        [] \<Rightarrow> None
      | d # cs' \<Rightarrow> if d = c then Some cs' else None)"

text \<open>
  The members of the object, up to and including the closing brace. The first argument
  bounds the number of members by the length of the input.
\<close>

fun scan_members :: "nat \<Rightarrow> string \<Rightarrow> ((string \<times> string) list \<times> string) option" where
  "scan_members 0 cs = None"
| "scan_members (Suc n) cs =
     (case scan_string cs of
        None \<Rightarrow> None
      | Some (key, cs1) \<Rightarrow>
          (case expect (CHR '':'') cs1 of
             None \<Rightarrow> None
           | Some cs2 \<Rightarrow>
               (case scan_string cs2 of
                  None \<Rightarrow> None
                | Some (val, cs3) \<Rightarrow>
                    (case dropWhile is_space cs3 of
                       [] \<Rightarrow> None
                     | d # cs4 \<Rightarrow>
                         if d = CHR ''}'' then Some ([(key, val)], cs4)
                         else if d = CHR '','' then
                           (case scan_members n cs4 of
                              None \<Rightarrow> None
                            | Some (ms, rest) \<Rightarrow> Some ((key, val) # ms, rest))
                         else None))))"

definition scan_object :: "string \<Rightarrow> (string \<times> string) list option" where
  "scan_object cs =
     (case expect (CHR ''{'') cs of
        None \<Rightarrow> None
      | Some cs1 \<Rightarrow>
          (case (case expect (CHR ''}'') cs1 of
                   Some rest \<Rightarrow> Some ([], rest)
                 | None \<Rightarrow> scan_members (length cs1) cs1) of
             None \<Rightarrow> None
           | Some (ms, rest) \<Rightarrow> if dropWhile is_space rest = [] then Some ms else None))"

text \<open>
  \<^verbatim>\<open>strconv.ParseFloat(s, 64)\<close> on decimal text: an optional minus sign, digits, an
  optional fraction and an optional exponent. Other texts that the library accepts
  (hexadecimal floats, infinities, a missing integer or fraction part) are outside the
  fragment. The result is the binary64 value nearest to the decimal value, and an error
  when that is out of range.
\<close>

definition parse_exponent :: "string \<Rightarrow> int option" where
  "parse_exponent s =
     (case s of
        [] \<Rightarrow> Some 0
      | c # r \<Rightarrow>
          if c = CHR ''e'' \<or> c = CHR ''E'' then
            (let (neg, ds) = (case r of
                                [] \<Rightarrow> (False, r)
                              | d # r' \<Rightarrow> if d = CHR ''-'' then (True, r')
                                         else if d = CHR ''+'' then (False, r') else (False, r))
             in if ds \<noteq> [] \<and> list_all is_digit ds
                then Some (if neg then - int (digits_val ds) else int (digits_val ds))
                else None)
          else None)"

definition parse_decimal :: "string \<Rightarrow> real option" where
  "parse_decimal s =
     (let (neg, s1) = (case s of
                         [] \<Rightarrow> (False, s)
                       | c # r \<Rightarrow> if c = CHR ''-'' then (True, r) else (False, s));
          ip = takeWhile is_digit s1;
          s2 = dropWhile is_digit s1;
          (fp, s3) = (case s2 of
                        [] \<Rightarrow> ([], s2)
                      | c # r \<Rightarrow> if c = CHR ''.'' then (takeWhile is_digit r, dropWhile is_digit r)
                               else ([], s2))
      in if ip = [] \<or> (s2 \<noteq> [] \<and> hd s2 = CHR ''.'' \<and> fp = []) then None
         else (case parse_exponent s3 of
                 None \<Rightarrow> None
               | Some ex \<Rightarrow>
                   let m = real (digits_val (ip @ fp)) * 10 powi (ex - int (length fp))
                   in Some (if neg then - m else m)))"

definition strconv_ParseFloat :: "string \<Rightarrow> (error + real) option" where
  "strconv_ParseFloat s =
     (case parse_decimal s of
        None \<Rightarrow> None
      | Some v \<Rightarrow>
          let r = f64_round v
          in if 2 ^ 1024 \<le> \<bar>r\<bar>
             then Some (Inl (Lib (''strconv.ParseFloat: parsing '' @ s @ '': value out of range'')))
             else Some (Inr r))"

text \<open>
  Keys are matched with the \<^verbatim>\<open>json\<close> tags of the struct without regard to the case
  of ASCII letters; members with other keys are skipped.
\<close>

definition lower :: "char \<Rightarrow> char" where
  "lower c =
     (if 65 \<le> (of_char c :: nat) \<and> (of_char c :: nat) \<le> 90
      then char_of ((of_char c :: nat) + 32) else c)"

definition fold_eq :: "string \<Rightarrow> string \<Rightarrow> bool" where
  "fold_eq a b = (map lower a = map lower b)"

text \<open>
  A field tagged \<^verbatim>\<open>`json:"...,string"`\<close> of type \<^verbatim>\<open>float64\<close> takes its value
  from the text inside the JSON string. The decoder keeps the first error and goes on with
  the remaining members.
\<close>

definition store_float ::
  "(real \<Rightarrow> Fund) \<Rightarrow> string \<Rightarrow> error option \<times> Fund \<Rightarrow> (error option \<times> Fund) option" where
  "store_float upd v st =
     (case strconv_ParseFloat v of
        None \<Rightarrow> None
      | Some (Inl e) \<Rightarrow> Some (case fst st of None \<Rightarrow> Some e | Some e0 \<Rightarrow> Some e0, snd st)
      | Some (Inr x) \<Rightarrow> Some (fst st, upd x))"

definition store_member ::
  "error option \<times> Fund \<Rightarrow> string \<times> string \<Rightarrow> (error option \<times> Fund) option" where
  "store_member st kv =
     (let (key, v) = kv; fund = snd st
      in if fold_eq key ''fundcode'' then Some (fst st, fund\<lparr>FundCode := v\<rparr>)
         else if fold_eq key ''name'' then Some (fst st, fund\<lparr>Name := v\<rparr>)
         else if fold_eq key ''jzrq'' then Some (fst st, fund\<lparr>JzRq := v\<rparr>)
         else if fold_eq key ''dwjz'' then store_float (\<lambda>x. fund\<lparr>Dwjz := x\<rparr>) v st
         else if fold_eq key ''gsz'' then store_float (\<lambda>x. fund\<lparr>Gsz := x\<rparr>) v st
         else if fold_eq key ''gszzl'' then store_float (\<lambda>x. fund\<lparr>Gszzl := x\<rparr>) v st
         else if fold_eq key ''gztime'' then Some (fst st, fund\<lparr>Gztime := v\<rparr>)
         else Some st)"

fun store_members ::
  "error option \<times> Fund \<Rightarrow> (string \<times> string) list \<Rightarrow> (error option \<times> Fund) option" where
  "store_members st [] = Some st"
| "store_members st (kv # kvs) =
     (case store_member st kv of None \<Rightarrow> None | Some st' \<Rightarrow> store_members st' kvs)"

text \<open>The zero value of the struct, which \<^verbatim>\<open>fund\<close> holds before the decoding.\<close>

definition zero_Fund :: Fund where
  "zero_Fund = \<lparr>FundCode = [], Name = [], JzRq = [], Dwjz = 0, Gsz = 0, Gszzl = 0, Gztime = []\<rparr>"

definition json_Unmarshal :: "string \<Rightarrow> (error + Fund) option" where
  "json_Unmarshal data =
     (case scan_object data of
        None \<Rightarrow> None
      | Some ms \<Rightarrow>
          (case store_members (None, zero_Fund) ms of
             None \<Rightarrow> None
           | Some (Some e, fund) \<Rightarrow> Some (Inl e)
           | Some (None, fund) \<Rightarrow> Some (Inr fund)))"

subsection \<open>\<^verbatim>\<open>FetchFund\<close>\<close>

text \<open>
  \<^verbatim>\<open>FetchFund\<close>, with the network as the parameter \<open>http_get\<close>, a function of the
  request URL. The status code of the response is not looked at. The answer is \<open>None\<close>
  where the body is outside the modelled fragment of JSON.
\<close>

definition FetchFund :: "(string \<Rightarrow> http_outcome) \<Rightarrow> string \<Rightarrow> (error + Fund) option" where
  "FetchFund http_get code =
     (let reqURL = ''http://fundgz.1234567.com.cn/js/'' @ code @ ''.js''
      in case http_get reqURL of
           NewRequestFails err \<Rightarrow> Some (Inl (Errorf (Some err) (''new request, url:'' @ reqURL)))
         | DoFails err \<Rightarrow> Some (Inl (Errorf (Some err) (''do request, url:'' @ reqURL)))
         | Response status (Inl err) \<Rightarrow> Some (Inl (Errorf (Some err) ''read body''))
         | Response status (Inr body) \<Rightarrow>
             (let body' = bytes_TrimSuffix (bytes_TrimPrefix body bodyPrefix) bodySuffix
              in case json_Unmarshal body' of
                   None \<Rightarrow> None
                 | Some (Inl err) \<Rightarrow> Some (Inl (Errorf (Some err) (''unmarshal, body:'' @ body')))
                 | Some (Inr fund) \<Rightarrow> Some (Inr fund)))"

section \<open>Notification formatters\<close>

definition zh_rise :: string where
  "zh_rise = [CHR 0xE6, CHR 0xB6, CHR 0xA8]"

definition zh_fall :: string where
  "zh_fall = [CHR 0xE8, CHR 0xB7, CHR 0x8C]"

definition zh_status :: string where
  "zh_status = [CHR 0xE7, CHR 0x8A, CHR 0xB6, CHR 0xE6, CHR 0x80, CHR 0x81]"

definition zh_fund_name :: string where
  "zh_fund_name = [CHR 0xE5, CHR 0x9F, CHR 0xBA, CHR 0xE9, CHR 0x87, CHR 0x91,
                   CHR 0xE5, CHR 0x90, CHR 0x8D, CHR 0xE7, CHR 0xA7, CHR 0xB0]"

definition zh_est_growth :: string where
  "zh_est_growth = [CHR 0xE4, CHR 0xBC, CHR 0xB0, CHR 0xE7, CHR 0xAE, CHR 0x97,
                    CHR 0xE6, CHR 0xB6, CHR 0xA8, CHR 0xE5, CHR 0xB9, CHR 0x85]"

definition zh_est_value :: string where
  "zh_est_value = [CHR 0xE5, CHR 0xBD, CHR 0x93, CHR 0xE5, CHR 0x89, CHR 0x8D,
                   CHR 0xE4, CHR 0xBC, CHR 0xB0, CHR 0xE7, CHR 0xAE, CHR 0x97,
                   CHR 0xE5, CHR 0x87, CHR 0x80, CHR 0xE5, CHR 0x80, CHR 0xBC]"

definition zh_prev_value :: string where
  "zh_prev_value = [CHR 0xE6, CHR 0x98, CHR 0xA8, CHR 0xE6, CHR 0x97, CHR 0xA5,
                    CHR 0xE5, CHR 0x8D, CHR 0x95, CHR 0xE4, CHR 0xBD, CHR 0x8D,
                    CHR 0xE5, CHR 0x87, CHR 0x80, CHR 0xE5, CHR 0x80, CHR 0xBC]"

definition zh_est_time :: string where
  "zh_est_time = [CHR 0xE4, CHR 0xBC, CHR 0xB0, CHR 0xE7, CHR 0xAE, CHR 0x97,
                  CHR 0xE6, CHR 0x97, CHR 0xB6, CHR 0xE9, CHR 0x97, CHR 0xB4]"

definition zh_monitor :: string where
  "zh_monitor = [CHR 0xE5, CHR 0x9F, CHR 0xBA, CHR 0xE9, CHR 0x87, CHR 0x91,
                 CHR 0xE6, CHR 0xB6, CHR 0xA8, CHR 0xE8, CHR 0xB7, CHR 0x8C,
                 CHR 0xE7, CHR 0x9B, CHR 0x91, CHR 0xE6, CHR 0x8E, CHR 0xA7]"

definition tabs :: "nat \<Rightarrow> string" where
  "tabs n = replicate n (CHR 0x09)"

text \<open>\<^verbatim>\<open>strings.Join(elems, sep)\<close>.\<close>

fun strings_Join :: "string list \<Rightarrow> string \<Rightarrow> string" where
  "strings_Join [] sep = []"
| "strings_Join [x] sep = x"
| "strings_Join (x # y # ys) sep = x @ sep @ strings_Join (y # ys) sep"

text \<open>The \<^verbatim>\<open>%d\<close> verb of \<^verbatim>\<open>fmt.Sprintf\<close> on a non-negative count.\<close>

fun decimal :: "nat \<Rightarrow> string" where
  "decimal n =
     (if n < 10 then [char_of (48 + n)] else decimal (n div 10) @ [char_of (48 + n mod 10)])"

declare decimal.simps [simp del]

subsection \<open>The email formatter\<close>

text \<open>
  The status of one record, as the loop body of \<^verbatim>\<open>GenerateEmailHTML\<close> computes it.
\<close>

definition email_status :: "Fund \<Rightarrow> real \<Rightarrow> real \<Rightarrow> string" where
  "email_status fund minRiseNum maxFallNum =
     (if Gszzl fund > 0 \<and> Gszzl fund \<ge> minRiseNum then zh_rise
      else if Gszzl fund < 0 \<and> Gszzl fund \<le> maxFallNum then zh_fall
      else ''-'')"

definition td_open :: string where
  \<open>td_open = ''              <td width="50" align="center">''\<close>

text \<open>
  One table row. \<open>FormatFloat\<close> stands for
  \<^verbatim>\<open>strconv.FormatFloat(x, 'f', -1, 64)\<close>, the shortest decimal text of a
  \<^verbatim>\<open>float64\<close>; it is a parameter of the model.
\<close>

definition email_element :: "(real \<Rightarrow> string) \<Rightarrow> Fund \<Rightarrow> real \<Rightarrow> real \<Rightarrow> string" where
  \<open>email_element FormatFloat fund minRiseNum maxFallNum =
     ''\<newline>'' @
     ''            <tr>\<newline>'' @
     td_open @ email_status fund minRiseNum maxFallNum @ ''</td>\<newline>'' @
     td_open @ Name fund @ ''</td>\<newline>'' @
     td_open @ FormatFloat (Gszzl fund) @ ''%</td>\<newline>'' @
     td_open @ FormatFloat (Gsz fund) @ ''</td>\<newline>'' @
     td_open @ FormatFloat (Dwjz fund) @ ''</td>\<newline>'' @
     td_open @ Gztime fund @ ''</td>\<newline>'' @
     ''            </tr>\<newline>'' @
     tabs 3\<close>

definition html_head :: string where
  \<open>html_head =
     ''\<newline>'' @
     tabs 3 @ ''</html>\<newline>'' @
     tabs 4 @ ''<head>\<newline>'' @
     tabs 5 @ ''<meta http-equiv="Content-Type" content="text/html; charset=utf-8" />\<newline>'' @
     tabs 4 @ ''</head>\<newline>'' @
     ''            <body>\<newline>'' @
     tabs 4 @ ''<div id="container">\<newline>'' @
     tabs 5 @ ''<p>'' @ zh_monitor @ '':</p>\<newline>'' @
     tabs 5 @ ''<div id="content">\<newline>'' @
     tabs 6 @ ''<table width="30%" border="1" cellspacing="0" cellpadding="0">\<newline>'' @
     tabs 7 @ ''<tr>\<newline>'' @
     tabs 7 @ ''  <td width="50" align="center">'' @ zh_status @ ''</td>\<newline>'' @
     tabs 7 @ ''  <td width="100" align="center">'' @ zh_fund_name @ ''</td>\<newline>'' @
     tabs 7 @ ''  <td width="50" align="center">'' @ zh_est_growth @ ''</td>\<newline>'' @
     tabs 7 @ ''  <td width="50" align="center">'' @ zh_est_value @ ''</td>\<newline>'' @
     tabs 7 @ ''  <td width="50" align="center">'' @ zh_prev_value @ ''</td>\<newline>'' @
     tabs 7 @ ''  <td width="50" align="center">'' @ zh_est_time @ ''</td>\<newline>'' @
     tabs 7 @ ''</tr>''\<close>

definition html_tail :: string where
  \<open>html_tail =
     ''\<newline>'' @
     tabs 6 @ ''</table>\<newline>'' @
     tabs 5 @ ''</div>\<newline>'' @
     ''            '' @ tabs 1 @ ''</div>\<newline>'' @
     ''            </div>\<newline>'' @
     ''            </body>\<newline>'' @
     ''        </html>''\<close>

text \<open>
  \<^verbatim>\<open>GenerateEmailHTML\<close>: the loop appends one element per record; the document is
  produced, and the flag set, when \<^verbatim>\<open>len(elements) > 0\<close>.
\<close>

definition GenerateEmailHTML ::
  "(real \<Rightarrow> string) \<Rightarrow> Fund list \<Rightarrow> real \<Rightarrow> real \<Rightarrow> string \<times> bool" where
  "GenerateEmailHTML FormatFloat funds minRiseNum maxFallNum =
     (let elements = foldl (\<lambda>elements fund.
                        elements @ [email_element FormatFloat fund minRiseNum maxFallNum]) [] funds
      in if length elements > 0
         then (html_head @ strings_Join elements ''\<newline>'' @ html_tail, True)
         else ([], False))"

subsection \<open>The ServerChan formatter\<close>

text \<open>
  The status of one record, as the loop body of \<^verbatim>\<open>GenerateServerChanMessage\<close>
  computes it.
\<close>

definition serverchan_status :: "Fund \<Rightarrow> real \<Rightarrow> real \<Rightarrow> string" where
  "serverchan_status fund minRiseNum maxFallNum =
     (if Gszzl fund > 0 \<and> Gszzl fund \<ge> minRiseNum then zh_rise
      else if Gszzl fund < 0 \<and> Gszzl fund \<le> maxFallNum then zh_fall
      else ''-'')"

definition serverchan_element :: "(real \<Rightarrow> string) \<Rightarrow> Fund \<Rightarrow> real \<Rightarrow> real \<Rightarrow> string" where
  "serverchan_element FormatFloat fund minRiseNum maxFallNum =
     ''|'' @ serverchan_status fund minRiseNum maxFallNum @
     ''|'' @ Name fund @
     ''|'' @ FormatFloat (Gszzl fund) @
     ''|'' @ FormatFloat (Gsz fund) @
     ''|'' @ FormatFloat (Dwjz fund) @
     ''|'' @ Gztime fund @
     ''|''"

text \<open>
  One iteration of the loop: the state is the pair of \<^verbatim>\<open>elements\<close> and
  \<^verbatim>\<open>fallCount\<close>; the counter is incremented in the second branch only.
\<close>

definition serverchan_loop ::
  "(real \<Rightarrow> string) \<Rightarrow> real \<Rightarrow> real \<Rightarrow> string list \<times> nat \<Rightarrow> Fund \<Rightarrow> string list \<times> nat" where
  "serverchan_loop FormatFloat minRiseNum maxFallNum st fund =
     (let (elements, fallCount) = st;
          fallCount' = (if Gszzl fund > 0 \<and> Gszzl fund \<ge> minRiseNum then fallCount
                        else if Gszzl fund < 0 \<and> Gszzl fund \<le> maxFallNum then fallCount + 1
                        else fallCount)
      in (elements @ [serverchan_element FormatFloat fund minRiseNum maxFallNum], fallCount'))"

definition table_head :: string where
  "table_head =
     ''\<newline>'' @
     ''|'' @ zh_status @ ''|'' @ zh_fund_name @ ''|'' @ zh_est_growth @ ''|'' @ zh_est_value @
     ''|'' @ zh_prev_value @ ''|'' @ zh_est_time @ ''|\<newline>'' @
     ''| -- | -- | -- | -- | -- | -- |\<newline>''"

text \<open>
  \<^verbatim>\<open>GenerateServerChanMessage\<close>. \<open>today\<close> is the text of
  \<^verbatim>\<open>time.Now().In(timeLocationCST).Format("2006-01-02")\<close>.
\<close>

definition GenerateServerChanMessage ::
  "(real \<Rightarrow> string) \<Rightarrow> string \<Rightarrow> Fund list \<Rightarrow> real \<Rightarrow> real \<Rightarrow> string \<times> string \<times> bool" where
  "GenerateServerChanMessage FormatFloat today funds minRiseNum maxFallNum =
     (let (elements, fallCount) =
            foldl (serverchan_loop FormatFloat minRiseNum maxFallNum) ([], 0) funds
      in if length elements > 0
         then (zh_monitor @ ''_'' @ today @ ''_'' @ decimal fallCount @ zh_fall,
               table_head @ strings_Join elements ''\<newline>'',
               True)
         else ([], [], False))"

section \<open>The ServerChan webhook\<close>

text \<open>
  The first part of \<^verbatim>\<open>SendServerChan\<close>, up to the form values handed to
  \<^verbatim>\<open>http.NewRequestWithContext\<close>: the two guards, the cut of the title
  (\<^verbatim>\<open>len(title) > 256\<close> and \<^verbatim>\<open>title[:256]\<close> count bytes), and
  \<^verbatim>\<open>param.Set("text", title); param.Set("desp", body)\<close>. The result is the request URL
  with the form values (which travel url-encoded), or the error of a guard.
\<close>

definition SendServerChan_request ::
  "string \<Rightarrow> string \<Rightarrow> string \<Rightarrow> error + string \<times> (string \<rightharpoonup> string)" where
  "SendServerChan_request title body serverChanKey =
     (if title = [] then Inl (Errorf None ''empty title'')
      else if serverChanKey = [] then Inl (Errorf None ''empty serverChanKey'')
      else let title' = (if length title > 256 then take 256 title else title);
               param = (Map.empty(''text'' \<mapsto> title'))(''desp'' \<mapsto> body);
               reqURL = ''https://sc.ftqq.com/'' @ serverChanKey @ ''.send''
           in Inr (reqURL, param))"

text \<open>
  \<^verbatim>\<open>SendServerChan\<close>, with the network as the parameter \<open>http_post\<close>. The body of
  the response is read for the log only, and an error of that read is ignored.
\<close>

definition SendServerChan ::
  "(string \<Rightarrow> (string \<rightharpoonup> string) \<Rightarrow> http_outcome) \<Rightarrow> string \<Rightarrow> string \<Rightarrow> string
     \<Rightarrow> error option" where
  "SendServerChan http_post title body serverChanKey =
     (case SendServerChan_request title body serverChanKey of
        Inl err \<Rightarrow> Some err
      | Inr (reqURL, param) \<Rightarrow>
          (case http_post reqURL param of
             NewRequestFails err \<Rightarrow> Some (Errorf (Some err) ''http newRequest'')
           | DoFails err \<Rightarrow> Some (Errorf (Some err) ''http get'')
           | Response code respBody \<Rightarrow>
               if code \<noteq> 200 then Some (Errorf None (''server return '' @ decimal code))
               else None))"

text \<open>
  The title that a call puts into the form field \<^verbatim>\<open>text\<close> of its request;
  \<open>None\<close> when a guard returns before any request is made.
\<close>

definition sent_title :: "string \<Rightarrow> string \<Rightarrow> string \<Rightarrow> string option" where
  "sent_title title body serverChanKey =
     (case SendServerChan_request title body serverChanKey of
        Inl err \<Rightarrow> None
      | Inr (reqURL, param) \<Rightarrow> param ''text'')"

section \<open>The aggregator \<^verbatim>\<open>FetchFunds\<close>\<close>

subsection \<open>Sorting\<close>

text \<open>
  \<^verbatim>\<open>sort.Slice(funds, less)\<close> is a library function. It is modelled by the insertion sort
  that the library itself runs on short slices: element after element is moved towards the
  front while it is \<open>less\<close> than its left neighbour. \<open>insert_back lt x prefix\<close> is one
  such move; \<open>prefix\<close> is the part to the left of \<open>x\<close>, nearest neighbour first. For
  longer slices the library uses other strategies, of which the model keeps the contract:
  the result is a rearrangement of the input in which no element is \<open>less\<close> than an earlier
  one, when \<open>less\<close> compares a key.
\<close>

fun insert_back :: "('a \<Rightarrow> 'a \<Rightarrow> bool) \<Rightarrow> 'a \<Rightarrow> 'a list \<Rightarrow> 'a list" where
  "insert_back lt x [] = [x]"
| "insert_back lt x (y # ys) = (if lt x y then y # insert_back lt x ys else x # y # ys)"

definition sort_Slice :: "('a \<Rightarrow> 'a \<Rightarrow> bool) \<Rightarrow> 'a list \<Rightarrow> 'a list" where
  "sort_Slice lt xs = rev (foldl (\<lambda>prefix x. insert_back lt x prefix) [] xs)"

text \<open>
  The comparison handed to \<^verbatim>\<open>sort.Slice\<close>:
  \<^verbatim>\<open>funds[i].Gszzl+1 < funds[j].Gszzl+1\<close>, both sums in \<^verbatim>\<open>float64\<close>.
\<close>

definition growth_less :: "Fund \<Rightarrow> Fund \<Rightarrow> bool" where
  "growth_less a b = (f64_add (Gszzl a) 1 < f64_add (Gszzl b) 1)"

subsection \<open>Goroutines and channels as a transition system\<close>

text \<open>
  \<^verbatim>\<open>FetchFunds\<close> starts a dispatcher goroutine, which starts one task goroutine per
  code, and a closer goroutine; the calling goroutine collects. The model is the
  interleaving of their atomic steps. A state holds the program counter of each goroutine
  and the shared objects: the channel \<^verbatim>\<open>limiter\<close> (capacity 3, only the number of
  buffered tokens matters), the unbuffered channel \<^verbatim>\<open>foundCh\<close>, the channel
  \<^verbatim>\<open>errCh\<close> (capacity 1) and the wait group.
\<close>

definition concurrency :: nat where
  "concurrency = 3"

text \<open>
  The places of a task goroutine: \<open>Spawned\<close>, before \<^verbatim>\<open>if code == ""\<close>;
  \<open>Fetching\<close>, inside the call of \<^verbatim>\<open>FetchFund\<close>; \<open>Publishing err\<close>, at the
  \<^verbatim>\<open>select\<close> with the wrapped error; \<open>Sending fund\<close>, at \<^verbatim>\<open>foundCh <- fund\<close>;
  \<open>Deferred\<close>, the body has returned and the deferred function is about to call
  \<^verbatim>\<open>wg.Done()\<close>; \<open>Releasing\<close>, about to receive from \<^verbatim>\<open>limiter\<close>;
  \<open>Exited\<close>.
\<close>

datatype task_pc =
  Spawned | Fetching | Publishing error | Sending Fund | Deferred | Releasing | Exited

text \<open>
  The dispatcher is either about to send a token into \<^verbatim>\<open>limiter\<close> or, having sent it,
  about to start the goroutine.
\<close>

datatype disp_pc = AtSend | AtGo

text \<open>
  The closer is in \<^verbatim>\<open>wg.Wait()\<close>, about to close \<^verbatim>\<open>foundCh\<close>, about to close
  \<^verbatim>\<open>errCh\<close>, or done.
\<close>

datatype closer_pc = Waiting | ClosingFound | ClosingErr | CloserDone

text \<open>
  The calling goroutine is in the \<^verbatim>\<open>range\<close> loop over \<^verbatim>\<open>foundCh\<close>, about to sort,
  about to receive from \<^verbatim>\<open>errCh\<close>, or has returned its two results.
\<close>

datatype main_pc = Ranging | Sorting | ReceivingErr | Returned "Fund list" "error option"

datatype action = DispatcherStep | TaskStep nat | CloserStep | MainStep

text \<open>
  \<open>tasks\<close> lists the task goroutines in the order of their start; task \<open>i\<close> runs the
  loop body for \<^verbatim>\<open>codes[i]\<close>. \<open>panicked\<close> is set by a step that panics in Go (a send
  on a closed channel, a negative wait group counter, closing a closed channel). The last
  two fields are history: \<open>errlog\<close> lists, in the order of the attempts, the errors that
  tasks tried to put into \<^verbatim>\<open>errCh\<close>, and \<open>fetched\<close> lists the tasks that called
  \<^verbatim>\<open>FetchFund\<close>. No step reads them.
\<close>

record state =
  disp :: disp_pc
  next_code :: nat
  limiter :: nat
  tasks :: "task_pc list"
  wg :: int
  foundCh_closed :: bool
  errCh :: "error option"
  errCh_closed :: bool
  closer :: closer_pc
  funds :: "Fund list"
  mainpc :: main_pc
  panicked :: bool
  errlog :: "error list"
  fetched :: "nat list"

text \<open>The state after \<^verbatim>\<open>wg.Add(len(codes))\<close> and the two \<^verbatim>\<open>go\<close> statements.\<close>

definition init :: "string list \<Rightarrow> state" where
  "init codes =
     \<lparr>disp = AtSend, next_code = 0, limiter = 0, tasks = [], wg = int (length codes),
      foundCh_closed = False, errCh = None, errCh_closed = False, closer = Waiting,
      funds = [], mainpc = Ranging, panicked = False, errlog = [], fetched = []\<rparr>"

text \<open>
  The dispatcher: \<^verbatim>\<open>limiter <- struct{}{}\<close> blocks while three tokens are buffered; the
  loop ends after the last code.
\<close>

definition dispatcher_step :: "string list \<Rightarrow> state \<Rightarrow> state option" where
  "dispatcher_step codes s =
     (case disp s of
        AtSend \<Rightarrow>
          if next_code s < length codes \<and> limiter s < concurrency
          then Some (s\<lparr>limiter := limiter s + 1, disp := AtGo\<rparr>)
          else None
      | AtGo \<Rightarrow>
          Some (s\<lparr>tasks := tasks s @ [Spawned], next_code := next_code s + 1, disp := AtSend\<rparr>))"

text \<open>
  One step of task \<open>i\<close>. \<open>fetch i code\<close> is what the call \<^verbatim>\<open>FetchFund(ctx, code)\<close> of
  this task returns; the call does return (the HTTP client has a timeout of one minute). The \<^verbatim>\<open>select\<close> with a \<^verbatim>\<open>default\<close> case puts the error into
  \<^verbatim>\<open>errCh\<close> when its buffer is empty and drops it otherwise. The send on the unbuffered
  \<^verbatim>\<open>foundCh\<close> completes together with the receive of the \<^verbatim>\<open>range\<close> loop, whose body
  appends the record. The result is \<open>None\<close> when the task is blocked or has exited.
\<close>

definition task_step ::
  "(nat \<Rightarrow> string \<Rightarrow> error + Fund) \<Rightarrow> string list \<Rightarrow> nat \<Rightarrow> state \<Rightarrow> state option" where
  "task_step fetch codes i s =
     (if length (tasks s) \<le> i then None
      else case tasks s ! i of
        Spawned \<Rightarrow>
          if codes ! i = [] then Some (s\<lparr>tasks := (tasks s)[i := Deferred]\<rparr>)
          else Some (s\<lparr>tasks := (tasks s)[i := Fetching], fetched := fetched s @ [i]\<rparr>)
      | Fetching \<Rightarrow>
          (case fetch i (codes ! i) of
             Inl err \<Rightarrow>
               Some (s\<lparr>tasks := (tasks s)[i := Publishing (Errorf (Some err) (''code:'' @ codes ! i))]\<rparr>)
           | Inr fund \<Rightarrow> Some (s\<lparr>tasks := (tasks s)[i := Sending fund]\<rparr>))
      | Publishing err \<Rightarrow>
          if errCh_closed s then Some (s\<lparr>panicked := True\<rparr>)
          else if errCh s = None
          then Some (s\<lparr>tasks := (tasks s)[i := Deferred], errCh := Some err,
                       errlog := errlog s @ [err]\<rparr>)
          else Some (s\<lparr>tasks := (tasks s)[i := Deferred], errlog := errlog s @ [err]\<rparr>)
      | Sending fund \<Rightarrow>
          if foundCh_closed s then Some (s\<lparr>panicked := True\<rparr>)
          else if mainpc s = Ranging
          then Some (s\<lparr>tasks := (tasks s)[i := Deferred], funds := funds s @ [fund]\<rparr>)
          else None
      | Deferred \<Rightarrow>
          if wg s - 1 < 0 then Some (s\<lparr>panicked := True\<rparr>)
          else Some (s\<lparr>tasks := (tasks s)[i := Releasing], wg := wg s - 1\<rparr>)
      | Releasing \<Rightarrow>
          if 0 < limiter s
          then Some (s\<lparr>tasks := (tasks s)[i := Exited], limiter := limiter s - 1\<rparr>)
          else None
      | Exited \<Rightarrow> None)"

definition closer_step :: "state \<Rightarrow> state option" where
  "closer_step s =
     (case closer s of
        Waiting \<Rightarrow> if wg s = 0 then Some (s\<lparr>closer := ClosingFound\<rparr>) else None
      | ClosingFound \<Rightarrow>
          if foundCh_closed s then Some (s\<lparr>panicked := True\<rparr>)
          else Some (s\<lparr>foundCh_closed := True, closer := ClosingErr\<rparr>)
      | ClosingErr \<Rightarrow>
          if errCh_closed s then Some (s\<lparr>panicked := True\<rparr>)
          else Some (s\<lparr>errCh_closed := True, closer := CloserDone\<rparr>)
      | CloserDone \<Rightarrow> None)"

text \<open>
  The calling goroutine. The \<^verbatim>\<open>range\<close> loop ends when \<^verbatim>\<open>foundCh\<close> is closed (its
  receives are part of the senders' steps). The receive \<^verbatim>\<open><-errCh\<close> takes the buffered
  error if there is one, and yields \<^verbatim>\<open>nil\<close> once the channel is closed and empty.
\<close>

definition main_step :: "state \<Rightarrow> state option" where
  "main_step s =
     (case mainpc s of
        Ranging \<Rightarrow> if foundCh_closed s then Some (s\<lparr>mainpc := Sorting\<rparr>) else None
      | Sorting \<Rightarrow> Some (s\<lparr>funds := sort_Slice growth_less (funds s), mainpc := ReceivingErr\<rparr>)
      | ReceivingErr \<Rightarrow>
          (case errCh s of
             Some err \<Rightarrow> Some (s\<lparr>errCh := None, mainpc := Returned (funds s) (Some err)\<rparr>)
           | None \<Rightarrow>
               if errCh_closed s then Some (s\<lparr>mainpc := Returned (funds s) None\<rparr>) else None)
      | Returned fs err \<Rightarrow> None)"

text \<open>A panic ends the program: no step follows it.\<close>

definition step ::
  "(nat \<Rightarrow> string \<Rightarrow> error + Fund) \<Rightarrow> string list \<Rightarrow> action \<Rightarrow> state \<Rightarrow> state option" where
  "step fetch codes a s =
     (if panicked s then None
      else case a of
        DispatcherStep \<Rightarrow> dispatcher_step codes s
      | TaskStep i \<Rightarrow> task_step fetch codes i s
      | CloserStep \<Rightarrow> closer_step s
      | MainStep \<Rightarrow> main_step s)"

text \<open>
  A schedule is the list of the goroutines that move, in order. It is an execution when
  each of them can move in its turn.
\<close>

fun run ::
  "(nat \<Rightarrow> string \<Rightarrow> error + Fund) \<Rightarrow> string list \<Rightarrow> action list \<Rightarrow> state \<Rightarrow> state option" where
  "run fetch codes [] s = Some s"
| "run fetch codes (a # as) s =
     (case step fetch codes a s of None \<Rightarrow> None | Some s' \<Rightarrow> run fetch codes as s')"

text \<open>
  What \<^verbatim>\<open>FetchFunds(ctx, codes)\<close> returns under a schedule: \<open>None\<close> when the schedule
  is not an execution or the calling goroutine has not returned by its end.
\<close>

definition FetchFunds ::
  "(nat \<Rightarrow> string \<Rightarrow> error + Fund) \<Rightarrow> action list \<Rightarrow> string list
     \<Rightarrow> (Fund list \<times> error option) option" where
  "FetchFunds fetch sched codes =
     (case run fetch codes sched (init codes) of
        None \<Rightarrow> None
      | Some s \<Rightarrow> (case mainpc s of Returned fs err \<Rightarrow> Some (fs, err) | _ \<Rightarrow> None))"

text \<open>The number of calls of \<^verbatim>\<open>FetchFund\<close> that are in progress.\<close>

definition in_flight :: "state \<Rightarrow> nat" where
  "in_flight s = length (filter (\<lambda>p. p = Fetching) (tasks s))"

text \<open>
  What the loop body does for \<^verbatim>\<open>codes[i]\<close>: nothing for the empty code, else a failure
  with the wrapped error or a record, as the fetch decides.
\<close>

datatype outcome = Skip | Fail error | Ok Fund

definition task_outcome ::
  "(nat \<Rightarrow> string \<Rightarrow> error + Fund) \<Rightarrow> string list \<Rightarrow> nat \<Rightarrow> outcome" where
  "task_outcome fetch codes i =
     (if codes ! i = [] then Skip
      else case fetch i (codes ! i) of
        Inl err \<Rightarrow> Fail (Errorf (Some err) (''code:'' @ codes ! i))
      | Inr fund \<Rightarrow> Ok fund)"

definition successes :: "(nat \<Rightarrow> string \<Rightarrow> error + Fund) \<Rightarrow> string list \<Rightarrow> Fund list" where
  "successes fetch codes =
     concat (map (\<lambda>i. case task_outcome fetch codes i of Ok fund \<Rightarrow> [fund] | _ \<Rightarrow> [])
                 [0..<length codes])"

definition failures :: "(nat \<Rightarrow> string \<Rightarrow> error + Fund) \<Rightarrow> string list \<Rightarrow> error list" where
  "failures fetch codes =
     concat (map (\<lambda>i. case task_outcome fetch codes i of Fail err \<Rightarrow> [err] | _ \<Rightarrow> [])
                 [0..<length codes])"

definition first_error :: "error list \<Rightarrow> error option" where
  "first_error errs = (case errs of [] \<Rightarrow> None | err # _ \<Rightarrow> Some err)"

text \<open>The key that \<open>growth_less\<close> compares.\<close>

definition sort_key :: "Fund \<Rightarrow> real" where
  "sort_key fund = f64_add (Gszzl fund) 1"

text \<open>
  The fetch of a task as \<open>FetchFund\<close> over a network computes it, for networks whose
  bodies are in the modelled fragment.
\<close>

definition fetch_via :: "(string \<Rightarrow> http_outcome) \<Rightarrow> nat \<Rightarrow> string \<Rightarrow> error + Fund" where
  "fetch_via http_get i code =
     (case FetchFund http_get code of Some r \<Rightarrow> r | None \<Rightarrow> Inl (Lib ''json''))"

section \<open>Invariants of the transition system\<close>

text \<open>
  Sums over the task goroutines: \<open>tally h ps\<close> adds \<open>h i p\<close> over the tasks, \<open>i\<close> the
  number of the task and \<open>p\<close> its place.
\<close>

definition tally :: "(nat \<Rightarrow> task_pc \<Rightarrow> 'a::comm_monoid_add) \<Rightarrow> task_pc list \<Rightarrow> 'a" where
  "tally h ps = (\<Sum>i<length ps. h i (ps ! i))"

text \<open>A task holds its token of \<^verbatim>\<open>limiter\<close> until it exits.\<close>

definition live :: "task_pc \<Rightarrow> nat" where
  "live p = (if p = Exited then 0 else 1)"

text \<open>A task has called \<^verbatim>\<open>wg.Done()\<close> from \<open>Releasing\<close> on.\<close>

definition finished :: "task_pc \<Rightarrow> nat" where
  "finished p = (if p = Releasing \<or> p = Exited then 1 else 0)"

definition past_body :: "task_pc \<Rightarrow> bool" where
  "past_body p = (p = Deferred \<or> p = Releasing \<or> p = Exited)"

text \<open>
  The admission gate: the tokens in \<^verbatim>\<open>limiter\<close> are those of the live tasks and the
  one the dispatcher has sent for the task it is about to start.
\<close>

definition inv_gate :: "string list \<Rightarrow> state \<Rightarrow> bool" where
  "inv_gate codes s =
     (length (tasks s) = next_code s \<and> next_code s \<le> length codes
      \<and> (disp s = AtGo \<longrightarrow> next_code s < length codes)
      \<and> limiter s = tally (\<lambda>i. live) (tasks s) + (if disp s = AtGo then 1 else 0)
      \<and> limiter s \<le> concurrency)"

text \<open>
  The wait group counts the codes whose task has not yet called \<^verbatim>\<open>wg.Done()\<close>; the
  closer passes \<^verbatim>\<open>wg.Wait()\<close> at zero only; the channels are closed by the closer, in
  its order; the collector leaves its loop only after \<^verbatim>\<open>foundCh\<close> is closed; and no
  step has panicked.
\<close>

definition inv_wait :: "string list \<Rightarrow> state \<Rightarrow> bool" where
  "inv_wait codes s =
     (wg s = int (length codes) - int (tally (\<lambda>i. finished) (tasks s))
      \<and> (closer s \<noteq> Waiting \<longrightarrow> wg s = 0)
      \<and> foundCh_closed s = (closer s = ClosingErr \<or> closer s = CloserDone)
      \<and> errCh_closed s = (closer s = CloserDone)
      \<and> (mainpc s \<noteq> Ranging \<longrightarrow> foundCh_closed s)
      \<and> \<not> panicked s)"

text \<open>What a task carries is what its fetch returned, and no task fetches the empty code.\<close>

definition inv_local :: "(nat \<Rightarrow> string \<Rightarrow> error + Fund) \<Rightarrow> string list \<Rightarrow> state \<Rightarrow> bool" where
  "inv_local fetch codes s =
     (\<forall>i<length (tasks s).
        case tasks s ! i of
          Fetching \<Rightarrow> codes ! i \<noteq> []
        | Publishing err \<Rightarrow> task_outcome fetch codes i = Fail err
        | Sending fund \<Rightarrow> task_outcome fetch codes i = Ok fund
        | _ \<Rightarrow> True)"

definition delivered ::
  "(nat \<Rightarrow> string \<Rightarrow> error + Fund) \<Rightarrow> string list \<Rightarrow> nat \<Rightarrow> task_pc \<Rightarrow> Fund multiset" where
  "delivered fetch codes i p =
     (if past_body p then (case task_outcome fetch codes i of Ok fund \<Rightarrow> {#fund#} | _ \<Rightarrow> {#})
      else {#})"

definition reported ::
  "(nat \<Rightarrow> string \<Rightarrow> error + Fund) \<Rightarrow> string list \<Rightarrow> nat \<Rightarrow> task_pc \<Rightarrow> error multiset" where
  "reported fetch codes i p =
     (if past_body p then (case task_outcome fetch codes i of Fail err \<Rightarrow> {#err#} | _ \<Rightarrow> {#})
      else {#})"

definition requested :: "string list \<Rightarrow> nat \<Rightarrow> task_pc \<Rightarrow> nat multiset" where
  "requested codes i p = (if p \<noteq> Spawned \<and> codes ! i \<noteq> [] then {#i#} else {#})"

text \<open>
  The collected records, the logged errors and the logged fetches are those of the tasks
  that have got that far.
\<close>

definition inv_account ::
  "(nat \<Rightarrow> string \<Rightarrow> error + Fund) \<Rightarrow> string list \<Rightarrow> state \<Rightarrow> bool" where
  "inv_account fetch codes s =
     (mset (funds s) = tally (delivered fetch codes) (tasks s)
      \<and> mset (errlog s) = tally (reported fetch codes) (tasks s)
      \<and> mset (fetched s) = tally (requested codes) (tasks s))"

text \<open>
  Until the collector receives from it, \<^verbatim>\<open>errCh\<close> holds the first logged error, if any;
  what the collector returns is the collected sequence, sorted by the key, and that error.
\<close>

definition inv_result :: "state \<Rightarrow> bool" where
  "inv_result s =
     (case mainpc s of
        Ranging \<Rightarrow> errCh s = first_error (errlog s)
      | Sorting \<Rightarrow> errCh s = first_error (errlog s)
      | ReceivingErr \<Rightarrow> errCh s = first_error (errlog s) \<and> sorted (map sort_key (funds s))
      | Returned fs err \<Rightarrow>
          fs = funds s \<and> err = first_error (errlog s) \<and> sorted (map sort_key fs))"

definition invariant ::
  "(nat \<Rightarrow> string \<Rightarrow> error + Fund) \<Rightarrow> string list \<Rightarrow> state \<Rightarrow> bool" where
  "invariant fetch codes s =
     (inv_gate codes s \<and> inv_wait codes s \<and> inv_local fetch codes s
      \<and> inv_account fetch codes s \<and> inv_result s)"

text \<open>
  The number of steps that are left at most: each goroutine counts the places it has still
  to pass, and a code whose task has not been started counts the two steps of the
  dispatcher and the five of the task.
\<close>

fun pc_left :: "task_pc \<Rightarrow> nat" where
  "pc_left Spawned = 5"
| "pc_left Fetching = 4"
| "pc_left (Publishing err) = 3"
| "pc_left (Sending fund) = 3"
| "pc_left Deferred = 2"
| "pc_left Releasing = 1"
| "pc_left Exited = 0"

fun closer_left :: "closer_pc \<Rightarrow> nat" where
  "closer_left Waiting = 3"
| "closer_left ClosingFound = 2"
| "closer_left ClosingErr = 1"
| "closer_left CloserDone = 0"

fun main_left :: "main_pc \<Rightarrow> nat" where
  "main_left Ranging = 3"
| "main_left Sorting = 2"
| "main_left ReceivingErr = 1"
| "main_left (Returned fs err) = 0"

definition remaining :: "string list \<Rightarrow> state \<Rightarrow> nat" where
  "remaining codes s =
     7 * (length codes - next_code s) - (if disp s = AtGo then 1 else 0)
     + tally (\<lambda>i. pc_left) (tasks s) + closer_left (closer s) + main_left (mainpc s)"

section \<open>Concrete runs\<close>

text \<open>The response body of the upstream service that the source quotes (with a short name).\<close>

definition canned_body :: string where
  \<open>canned_body = ''jsonpgz({"fundcode":"180012","name":"X","jzrq":"2019-10-31","dwjz":"3.6009","gsz":"3.6490","gszzl":"1.34","gztime":"2019-11-01 15:00"});''\<close>

text \<open>
  A run over four codes, the second of them empty: the network answers the first with the
  body above and lets the other two time out.
\<close>

definition demo_http :: "string \<Rightarrow> http_outcome" where
  "demo_http url =
     (if url = ''http://fundgz.1234567.com.cn/js/180012.js'' then Response 200 (Inr canned_body)
      else DoFails (Lib ''timeout''))"

definition demo_codes :: "string list" where
  "demo_codes = [''180012'', [], ''519697'', ''163406'']"

definition demo_fund :: Fund where
  "demo_fund =
     \<lparr>FundCode = ''180012'', Name = ''X'', JzRq = ''2019-10-31'',
      Dwjz = f64_round (36009 / 10000), Gsz = f64_round (3649 / 1000),
      Gszzl = f64_round (134 / 100), Gztime = ''2019-11-01 15:00''\<rparr>"

definition demo_error :: "string \<Rightarrow> error" where
  "demo_error code =
     Errorf (Some (Errorf (Some (Lib ''timeout''))
                      (''do request, url:http://fundgz.1234567.com.cn/js/'' @ code @ ''.js'')))
            (''code:'' @ code)"

text \<open>
  The schedule up to the moment when three fetches are in progress: the first three tasks
  are started, the task of the empty code runs to its end and frees its token, the fourth
  task is started, and the three tasks with a code enter \<^verbatim>\<open>FetchFund\<close>.
\<close>

definition demo_peak :: "action list" where
  "demo_peak =
     [DispatcherStep, DispatcherStep, DispatcherStep, DispatcherStep, DispatcherStep,
      DispatcherStep, TaskStep 0, TaskStep 1, TaskStep 2, TaskStep 1, TaskStep 1,
      DispatcherStep, DispatcherStep, TaskStep 3]"

text \<open>
  The rest of the schedule: the third task fails first, then the fourth, then the first
  delivers its record; the tasks exit, the closer closes and the collector returns.
\<close>

definition demo_rest :: "action list" where
  "demo_rest =
     [TaskStep 2, TaskStep 2, TaskStep 3, TaskStep 3, TaskStep 0, TaskStep 0,
      TaskStep 0, TaskStep 0, TaskStep 2, TaskStep 2, TaskStep 3, TaskStep 3,
      CloserStep, CloserStep, CloserStep, MainStep, MainStep, MainStep]"

text \<open>
  A run over two codes whose funds have the estimated growths \<^verbatim>\<open>2e-17\<close> and
  \<^verbatim>\<open>1e-17\<close>, the larger one arriving first.
\<close>

definition tiny_body :: "string \<Rightarrow> string \<Rightarrow> string" where
  \<open>tiny_body code growth =
     ''jsonpgz({"fundcode":"'' @ code @ ''","name":"A","jzrq":"2019-10-31","dwjz":"1.0000","gsz":"1.0000","gszzl":"'' @ growth @ ''","gztime":"2019-11-01 15:00"});''\<close>

definition tiny_http :: "string \<Rightarrow> http_outcome" where
  "tiny_http url =
     (if url = ''http://fundgz.1234567.com.cn/js/000001.js''
      then Response 200 (Inr (tiny_body ''000001'' ''2e-17''))
      else if url = ''http://fundgz.1234567.com.cn/js/000002.js''
      then Response 200 (Inr (tiny_body ''000002'' ''1e-17''))
      else DoFails (Lib ''timeout''))"

definition tiny_hi :: Fund where
  "tiny_hi =
     \<lparr>FundCode = ''000001'', Name = ''A'', JzRq = ''2019-10-31'', Dwjz = 1, Gsz = 1,
      Gszzl = f64_round (2 / 10 ^ 17), Gztime = ''2019-11-01 15:00''\<rparr>"

definition tiny_lo :: Fund where
  "tiny_lo =
     \<lparr>FundCode = ''000002'', Name = ''A'', JzRq = ''2019-10-31'', Dwjz = 1, Gsz = 1,
      Gszzl = f64_round (1 / 10 ^ 17), Gztime = ''2019-11-01 15:00''\<rparr>"

definition tiny_schedule :: "action list" where
  "tiny_schedule =
     [DispatcherStep, DispatcherStep, DispatcherStep, DispatcherStep,
      TaskStep 0, TaskStep 0, TaskStep 0, TaskStep 0, TaskStep 0,
      TaskStep 1, TaskStep 1, TaskStep 1, TaskStep 1, TaskStep 1,
      CloserStep, CloserStep, CloserStep, MainStep, MainStep, MainStep]"

definition title_86 :: string where
  "title_86 = concat (replicate 86 zh_fall)"

section \<open>Properties of the formatters\<close>

lemma status_strings_distinct:
  "zh_rise \<noteq> zh_fall" "zh_rise \<noteq> ''-''" "zh_fall \<noteq> ''-''"
  by (simp_all add: zh_rise_def zh_fall_def)

lemma email_elements_length:
  "length (foldl (\<lambda>elements fund. elements @ [g fund]) acc fs) = length acc + length fs"
  by (induction fs arbitrary: acc) simp_all

lemma serverchan_elements_length:
  "length (fst (foldl (serverchan_loop F a b) st fs)) = length (fst st) + length fs"
  by (induction fs arbitrary: st) (simp_all add: serverchan_loop_def split: prod.splits)

text \<open>
  C5 (as amended). Both formatters classify a record as rise exactly when its growth is
  positive and at least the minimum-rise threshold, as fall exactly when its growth is
  negative and at most the maximum-fall threshold, and as neutral in every other case.
\<close>

theorem status_classification:
  "(email_status fund minRiseNum maxFallNum = zh_rise)
      = (0 < Gszzl fund \<and> minRiseNum \<le> Gszzl fund)
   \<and> (email_status fund minRiseNum maxFallNum = zh_fall)
      = (Gszzl fund < 0 \<and> Gszzl fund \<le> maxFallNum)
   \<and> (email_status fund minRiseNum maxFallNum = ''-'')
      = (\<not> (0 < Gszzl fund \<and> minRiseNum \<le> Gszzl fund) \<and> \<not> (Gszzl fund < 0 \<and> Gszzl fund \<le> maxFallNum))
   \<and> (serverchan_status fund minRiseNum maxFallNum = zh_rise)
      = (0 < Gszzl fund \<and> minRiseNum \<le> Gszzl fund)
   \<and> (serverchan_status fund minRiseNum maxFallNum = zh_fall)
      = (Gszzl fund < 0 \<and> Gszzl fund \<le> maxFallNum)
   \<and> (serverchan_status fund minRiseNum maxFallNum = ''-'')
      = (\<not> (0 < Gszzl fund \<and> minRiseNum \<le> Gszzl fund) \<and> \<not> (Gszzl fund < 0 \<and> Gszzl fund \<le> maxFallNum))"
  using status_strings_distinct
  by (auto simp add: email_status_def serverchan_status_def)

text \<open>
  C5 as stated fails: a record whose growth is 0 reaches a minimum-rise threshold of 0, and
  neither formatter classifies it as rise (both give the neutral mark).
\<close>

theorem status_rise_counterexample:
  "0 \<le> Gszzl \<lparr>FundCode = ''180012'', Name = ''X'', JzRq = ''2019-10-31'', Dwjz = 1, Gsz = 1,
               Gszzl = 0, Gztime = ''2019-11-01 15:00''\<rparr>
   \<and> email_status \<lparr>FundCode = ''180012'', Name = ''X'', JzRq = ''2019-10-31'', Dwjz = 1, Gsz = 1,
               Gszzl = 0, Gztime = ''2019-11-01 15:00''\<rparr> 0 (- 8 / 10) = ''-''
   \<and> serverchan_status \<lparr>FundCode = ''180012'', Name = ''X'', JzRq = ''2019-10-31'', Dwjz = 1, Gsz = 1,
               Gszzl = 0, Gztime = ''2019-11-01 15:00''\<rparr> 0 (- 8 / 10) = ''-''"
  by (simp add: email_status_def serverchan_status_def)

text \<open>
  With a positive minimum-rise threshold and a negative maximum-fall threshold, as the
  program's \<^verbatim>\<open>main\<close> passes them, the guards on the sign are implied by the
  comparisons with the thresholds.
\<close>

lemma status_classification_signed_thresholds:
  assumes "0 < minRiseNum" "maxFallNum < 0"
  shows "(email_status fund minRiseNum maxFallNum = zh_rise) = (minRiseNum \<le> Gszzl fund)"
    and "(email_status fund minRiseNum maxFallNum = zh_fall) = (Gszzl fund \<le> maxFallNum)"
  using assms status_strings_distinct
  by (auto simp add: email_status_def)

text \<open>
  C9. The flag returned by either formatter is false exactly when the input sequence is
  empty, whatever the thresholds and the classification of the records.
\<close>

theorem should_send_iff_nonempty:
  "snd (GenerateEmailHTML FormatFloat fs minRiseNum maxFallNum) = (fs \<noteq> [])
   \<and> snd (snd (GenerateServerChanMessage FormatFloat today fs minRiseNum maxFallNum))
       = (fs \<noteq> [])"
proof -
  have "length (foldl (\<lambda>elements fund.
            elements @ [email_element FormatFloat fund minRiseNum maxFallNum]) [] fs)
          = length fs"
    by (simp add: email_elements_length)
  then have "snd (GenerateEmailHTML FormatFloat fs minRiseNum maxFallNum) = (fs \<noteq> [])"
    unfolding GenerateEmailHTML_def Let_def by (cases fs) auto
  moreover
  have "length (fst (foldl (serverchan_loop FormatFloat minRiseNum maxFallNum) ([], 0) fs))
          = length fs"
    by (simp add: serverchan_elements_length)
  then have "snd (snd (GenerateServerChanMessage FormatFloat today fs minRiseNum maxFallNum))
          = (fs \<noteq> [])"
    unfolding GenerateServerChanMessage_def Let_def by (cases fs) (auto split: prod.splits)
  ultimately show ?thesis by simp
qed

text \<open>
  C10. The classification computed by the email formatter and the one computed by the
  ServerChan formatter are the same function of the record and the two thresholds.
\<close>

theorem formatters_same_classification:
  "email_status = serverchan_status"
  by (intro ext) (simp add: email_status_def serverchan_status_def)

section \<open>The title of the webhook\<close>

text \<open>
  C8 (as amended). A call of \<^verbatim>\<open>SendServerChan\<close> that passes its guards puts into its
  request the first 256 bytes of the title when the title is longer than 256 bytes, which
  are exactly 256 bytes, and the title unchanged when it has 256 bytes or fewer.
\<close>

theorem title_cut_to_256_bytes:
  assumes "title \<noteq> []" "serverChanKey \<noteq> []"
  shows "sent_title title body serverChanKey
           = Some (if 256 < length title then take 256 title else title)
         \<and> (256 < length title \<longrightarrow> length (take 256 title) = 256)"
  using assms by (simp add: sent_title_def SendServerChan_request_def Let_def)

theorem title_cut_to_256_bytes_witness:
  "sent_title (replicate 300 (CHR ''a'')) ''body'' ''key'' = Some (replicate 256 (CHR ''a''))
   \<and> length (replicate 256 (CHR ''a'')) = 256"
  using title_cut_to_256_bytes [of "replicate 300 (CHR ''a'')" "''key''" "''body''"]
  by simp

text \<open>
  C8 as stated fails where a character takes more than one byte: a title of 86 characters,
  each of them the three bytes of the fall mark, has 258 bytes and is sent cut to its first
  256 bytes, although it has fewer than 256 characters.
\<close>

theorem title_of_86_characters_is_cut:
  "length title_86 = 258
   \<and> sent_title title_86 ''body'' ''key'' = Some (take 256 title_86)
   \<and> length (take 256 title_86) = 256
   \<and> take 256 title_86 \<noteq> title_86"
proof -
  have len: "length title_86 = 258"
    by (simp add: title_86_def length_concat zh_fall_def sum_list_replicate)
  then have ne: "title_86 \<noteq> []"
    by auto
  have sent: "sent_title title_86 ''body'' ''key'' = Some (take 256 title_86)"
    using len ne by (simp add: sent_title_def SendServerChan_request_def Let_def)
  have cut: "length (take 256 title_86) = 256"
    using len by simp
  then have "take 256 title_86 \<noteq> title_86"
    using len by auto
  with len sent cut show ?thesis by simp
qed

section \<open>The canned response\<close>

lemma binade_numeral [simp]:
  "binade (numeral k) x e =
     (if 2 \<le> x then binade (pred_numeral k) (x / 2) (e + 1)
      else if x < 1 then binade (pred_numeral k) (2 * x) (e - 1)
      else e)"
  by (simp add: numeral_eq_Suc)

lemma scan_members_numeral [simp]:
  "scan_members (numeral k) cs = scan_members (Suc (pred_numeral k)) cs"
  by (simp add: numeral_eq_Suc)

lemmas f64_eval = f64_round_def f64_add_def round_half_even_def Let_def

lemmas scan_eval =
  bytes_TrimSuffix_def bytes_TrimPrefix_def bodyPrefix_def bodySuffix_def
  scan_object_def expect_def scan_string_def is_space_def

lemmas float_eval =
  strconv_ParseFloat_def parse_decimal_def parse_exponent_def is_digit_def digits_val_def

lemmas store_eval = store_member_def store_float_def fold_eq_def lower_def zero_Fund_def

lemma canned_scan:
  "scan_object (bytes_TrimSuffix (bytes_TrimPrefix canned_body bodyPrefix) bodySuffix)
     = Some [(''fundcode'', ''180012''), (''name'', ''X''), (''jzrq'', ''2019-10-31''),
             (''dwjz'', ''3.6009''), (''gsz'', ''3.6490''), (''gszzl'', ''1.34''),
             (''gztime'', ''2019-11-01 15:00'')]"
  by (simp add: scan_eval canned_body_def)

lemma canned_floats:
  "strconv_ParseFloat ''3.6009'' = Some (Inr (f64_round (36009 / 10000)))"
  "strconv_ParseFloat ''3.6490'' = Some (Inr (f64_round (3649 / 1000)))"
  "strconv_ParseFloat ''1.34'' = Some (Inr (f64_round (134 / 100)))"
  by (simp_all add: float_eval f64_eval)

lemma canned_unmarshal:
  "json_Unmarshal (bytes_TrimSuffix (bytes_TrimPrefix canned_body bodyPrefix) bodySuffix)
     = Some (Inr demo_fund)"
  unfolding json_Unmarshal_def canned_scan
  by (simp add: store_eval canned_floats demo_fund_def)


section \<open>Proofs of the invariants\<close>

subsection \<open>Sums over the tasks\<close>

lemma tally_Nil [simp]: "tally h [] = 0"
  by (simp add: tally_def)

lemma tally_snoc [simp]: "tally h (ps @ [p]) = tally h ps + h (length ps) p"
  by (simp add: tally_def nth_append)

lemma tally_split:
  assumes "i < length ps"
  shows "tally h ps = h i (ps ! i) + (\<Sum>j\<in>{..<length ps} - {i}. h j (ps ! j))"
  unfolding tally_def using assms by (simp add: sum.remove)

lemma tally_update:
  fixes h :: "nat \<Rightarrow> task_pc \<Rightarrow> 'a::cancel_comm_monoid_add"
  assumes "i < length ps"
  shows "tally h (ps[i := p]) = tally h ps + h i p - h i (ps ! i)"
proof -
  define r where "r = (\<Sum>j\<in>{..<length ps} - {i}. h j (ps ! j))"
  have "(\<Sum>j\<in>{..<length ps} - {i}. h j (ps[i := p] ! j)) = r"
    unfolding r_def by (rule sum.cong) auto
  then have new: "tally h (ps[i := p]) = h i p + r"
    using assms tally_split [of i "ps[i := p]" h] by simp
  have old: "tally h ps = h i (ps ! i) + r"
    unfolding r_def using assms by (rule tally_split)
  have "h i (ps ! i) + r + h i p - h i (ps ! i) = h i (ps ! i) + (r + h i p) - h i (ps ! i)"
    by (simp only: add.assoc)
  also have "\<dots> = r + h i p"
    by (rule add_diff_cancel_left')
  also have "\<dots> = h i p + r"
    by (rule add.commute)
  finally show ?thesis
    by (simp only: new old)
qed

lemma tally_ge:
  fixes h :: "nat \<Rightarrow> task_pc \<Rightarrow> nat"
  assumes "i < length ps"
  shows "h i (ps ! i) \<le> tally h ps"
  using tally_split [OF assms, of h] by simp

subsection \<open>The admission gate\<close>

lemma inv_gate_init: "inv_gate codes (init codes)"
  by (simp add: inv_gate_def init_def concurrency_def)

lemma inv_gate_dispatcher:
  "inv_gate codes s \<Longrightarrow> dispatcher_step codes s = Some s' \<Longrightarrow> inv_gate codes s'"
  by (auto simp add: inv_gate_def dispatcher_step_def live_def concurrency_def
           split: disp_pc.splits if_splits)

lemma inv_gate_task:
  assumes "inv_gate codes s" "task_step fetch codes i s = Some s'"
  shows "inv_gate codes s'"
proof -
  from assms(2) have i: "i < length (tasks s)"
    by (simp add: task_step_def split: if_splits)
  have ge: "live (tasks s ! i) \<le> tally (\<lambda>i. live) (tasks s)"
    using tally_ge [OF i, of "\<lambda>i. live"] .
  show ?thesis
    using assms i ge
    by (auto simp add: inv_gate_def task_step_def tally_update live_def
             split: task_pc.splits if_splits sum.splits)
qed

lemma inv_gate_closer: "inv_gate codes s \<Longrightarrow> closer_step s = Some s' \<Longrightarrow> inv_gate codes s'"
  by (auto simp add: inv_gate_def closer_step_def split: closer_pc.splits if_splits)

lemma inv_gate_main: "inv_gate codes s \<Longrightarrow> main_step s = Some s' \<Longrightarrow> inv_gate codes s'"
  by (auto simp add: inv_gate_def main_step_def split: main_pc.splits if_splits option.splits)

lemma inv_gate_step:
  "inv_gate codes s \<Longrightarrow> step fetch codes a s = Some s' \<Longrightarrow> inv_gate codes s'"
  by (auto simp add: step_def split: if_splits action.splits
           intro: inv_gate_dispatcher inv_gate_task inv_gate_closer inv_gate_main)

lemma filter_le_tally:
  "length (filter (\<lambda>p. p = Fetching) ps) \<le> tally (\<lambda>i. live) ps"
proof (induction ps rule: rev_induct)
  case Nil
  then show ?case by simp
next
  case (snoc p ps)
  then show ?case by (simp add: live_def)
qed

subsection \<open>The wait group and the closing of the channels\<close>

lemma tally_le:
  fixes h :: "nat \<Rightarrow> task_pc \<Rightarrow> nat"
  assumes "\<And>i p. h i p \<le> 1"
  shows "tally h ps \<le> length ps"
  unfolding tally_def using sum_bounded_above [of "{..<length ps}" "\<lambda>i. h i (ps ! i)" 1] assms
  by simp

lemma tally_lt:
  fixes h :: "nat \<Rightarrow> task_pc \<Rightarrow> nat"
  assumes "\<And>i p. h i p \<le> 1" "i < length ps" "h i (ps ! i) = 0"
  shows "tally h ps < length ps"
proof -
  have "(\<Sum>j\<in>{..<length ps} - {i}. h j (ps ! j)) \<le> of_nat (card ({..<length ps} - {i})) * 1"
    by (rule sum_bounded_above) (use assms(1) in auto)
  then show ?thesis
    using assms(2,3) tally_split [OF assms(2), of h] by simp
qed

lemma finished_le: "finished p \<le> 1"
  by (simp add: finished_def)

lemma unfinished_wg_pos:
  assumes "inv_gate codes s" "inv_wait codes s" "i < length (tasks s)"
    "finished (tasks s ! i) = 0"
  shows "0 < wg s"
proof -
  have "tally (\<lambda>i. finished) (tasks s) < length (tasks s)"
    using finished_le assms(3,4) by (rule tally_lt)
  moreover have "length (tasks s) \<le> length codes"
    using assms(1) by (simp add: inv_gate_def)
  ultimately show ?thesis
    using assms(2) by (simp add: inv_wait_def)
qed

lemma all_finished:
  assumes "inv_gate codes s" "inv_wait codes s" "wg s = 0"
  shows "length (tasks s) = length codes"
    and "i < length (tasks s) \<Longrightarrow> finished (tasks s ! i) = 1"
proof -
  have le: "tally (\<lambda>i. finished) (tasks s) \<le> length (tasks s)"
    using finished_le by (rule tally_le)
  have "length (tasks s) \<le> length codes"
    using assms(1) by (simp add: inv_gate_def)
  with le assms(2,3) show "length (tasks s) = length codes"
    by (simp add: inv_wait_def)
  show "finished (tasks s ! i) = 1" if "i < length (tasks s)"
  proof (rule ccontr)
    assume "finished (tasks s ! i) \<noteq> 1"
    then have "finished (tasks s ! i) = 0"
      by (simp add: finished_def split: if_splits)
    with assms(1,2) that have "0 < wg s"
      by (rule unfinished_wg_pos)
    with assms(3) show False by simp
  qed
qed

lemma inv_wait_init: "inv_wait codes (init codes)"
  by (simp add: inv_wait_def init_def)

lemma inv_wait_dispatcher:
  "inv_wait codes s \<Longrightarrow> dispatcher_step codes s = Some s' \<Longrightarrow> inv_wait codes s'"
  by (auto simp add: inv_wait_def dispatcher_step_def finished_def
           split: disp_pc.splits if_splits)

lemma inv_wait_task:
  assumes "inv_gate codes s" "inv_wait codes s" "task_step fetch codes i s = Some s'"
  shows "inv_wait codes s'"
proof -
  from assms(3) have i: "i < length (tasks s)"
    by (simp add: task_step_def split: if_splits)
  have pos: "finished (tasks s ! i) = 0 \<Longrightarrow> 0 < wg s"
    using assms(1,2) i by (rule unfinished_wg_pos)
  have ge: "finished (tasks s ! i) \<le> tally (\<lambda>i. finished) (tasks s)"
    using tally_ge [OF i, of "\<lambda>i. finished"] .
  show ?thesis
    using assms(2,3) i pos ge
    by (auto simp add: inv_wait_def task_step_def tally_update finished_def
             split: task_pc.splits if_splits sum.splits)
qed

lemma inv_wait_closer: "inv_wait codes s \<Longrightarrow> closer_step s = Some s' \<Longrightarrow> inv_wait codes s'"
  by (auto simp add: inv_wait_def closer_step_def split: closer_pc.splits if_splits)

lemma inv_wait_main: "inv_wait codes s \<Longrightarrow> main_step s = Some s' \<Longrightarrow> inv_wait codes s'"
  by (auto simp add: inv_wait_def main_step_def split: main_pc.splits if_splits option.splits)

lemma inv_wait_step:
  "inv_gate codes s \<Longrightarrow> inv_wait codes s \<Longrightarrow> step fetch codes a s = Some s'
     \<Longrightarrow> inv_wait codes s'"
  by (auto simp add: step_def split: if_splits action.splits
           intro: inv_wait_dispatcher inv_wait_task inv_wait_closer inv_wait_main)

subsection \<open>What the tasks carry\<close>

lemma inv_local_init: "inv_local fetch codes (init codes)"
  by (simp add: inv_local_def init_def)

lemma inv_local_dispatcher:
  "inv_local fetch codes s \<Longrightarrow> dispatcher_step codes s = Some s' \<Longrightarrow> inv_local fetch codes s'"
  by (auto simp add: inv_local_def dispatcher_step_def nth_append less_Suc_eq
           split: disp_pc.splits if_splits)

lemma inv_local_task:
  assumes "inv_local fetch codes s" "task_step fetch codes i s = Some s'"
  shows "inv_local fetch codes s'"
  unfolding inv_local_def
proof (intro allI impI)
  fix j
  assume j: "j < length (tasks s')"
  from assms(2) have i: "i < length (tasks s)"
    by (simp add: task_step_def split: if_splits)
  have len: "length (tasks s') = length (tasks s)"
    using assms(2) i by (auto simp add: task_step_def split: task_pc.splits if_splits sum.splits)
  show "case tasks s' ! j of
          Fetching \<Rightarrow> codes ! j \<noteq> []
        | Publishing err \<Rightarrow> task_outcome fetch codes j = Fail err
        | Sending fund \<Rightarrow> task_outcome fetch codes j = Ok fund
        | _ \<Rightarrow> True"
  proof (cases "j = i")
    case True
    from assms(1) i have loc:
      "case tasks s ! i of
          Fetching \<Rightarrow> codes ! i \<noteq> []
        | Publishing err \<Rightarrow> task_outcome fetch codes i = Fail err
        | Sending fund \<Rightarrow> task_outcome fetch codes i = Ok fund
        | _ \<Rightarrow> True"
      by (simp add: inv_local_def)
    from assms(2) i loc True show ?thesis
      by (auto simp add: task_step_def task_outcome_def
               split: task_pc.splits if_splits sum.splits)
  next
    case False
    then have "tasks s' ! j = tasks s ! j"
      using assms(2) i by (auto simp add: task_step_def split: task_pc.splits if_splits sum.splits)
    with assms(1) j len show ?thesis
      by (simp add: inv_local_def)
  qed
qed

lemma inv_local_closer:
  "inv_local fetch codes s \<Longrightarrow> closer_step s = Some s' \<Longrightarrow> inv_local fetch codes s'"
  by (auto simp add: inv_local_def closer_step_def split: closer_pc.splits if_splits)

lemma inv_local_main:
  "inv_local fetch codes s \<Longrightarrow> main_step s = Some s' \<Longrightarrow> inv_local fetch codes s'"
  by (auto simp add: inv_local_def main_step_def split: main_pc.splits if_splits option.splits)

subsection \<open>The sort rearranges\<close>

lemma mset_insert_back: "mset (insert_back lt x ys) = add_mset x (mset ys)"
  by (induction ys) simp_all

lemma mset_insert_loop:
  "mset (foldl (\<lambda>prefix x. insert_back lt x prefix) acc xs) = mset acc + mset xs"
  by (induction xs arbitrary: acc) (simp_all add: mset_insert_back)

lemma mset_sort_Slice: "mset (sort_Slice lt xs) = mset xs"
  by (simp add: sort_Slice_def mset_insert_loop)

subsection \<open>Records, errors and fetches are accounted for\<close>

lemma inv_account_init: "inv_account fetch codes (init codes)"
  by (simp add: inv_account_def init_def)

lemma inv_account_dispatcher:
  "inv_account fetch codes s \<Longrightarrow> dispatcher_step codes s = Some s'
     \<Longrightarrow> inv_account fetch codes s'"
  by (auto simp add: inv_account_def dispatcher_step_def delivered_def reported_def
           requested_def past_body_def split: disp_pc.splits if_splits)

lemma inv_account_task:
  assumes "inv_local fetch codes s" "inv_account fetch codes s"
    "task_step fetch codes i s = Some s'"
  shows "inv_account fetch codes s'"
proof -
  from assms(3) have i: "i < length (tasks s)"
    by (simp add: task_step_def split: if_splits)
  from assms(1) i have loc:
    "case tasks s ! i of
          Fetching \<Rightarrow> codes ! i \<noteq> []
        | Publishing err \<Rightarrow> task_outcome fetch codes i = Fail err
        | Sending fund \<Rightarrow> task_outcome fetch codes i = Ok fund
        | _ \<Rightarrow> True"
    by (simp add: inv_local_def)
  show ?thesis
    using assms(2,3) i loc
    by (auto simp add: inv_account_def task_step_def tally_update delivered_def reported_def
             requested_def past_body_def task_outcome_def
             split: task_pc.splits if_splits sum.splits)
qed

lemma inv_account_closer:
  "inv_account fetch codes s \<Longrightarrow> closer_step s = Some s' \<Longrightarrow> inv_account fetch codes s'"
  by (auto simp add: inv_account_def closer_step_def split: closer_pc.splits if_splits)

lemma inv_account_main:
  "inv_account fetch codes s \<Longrightarrow> main_step s = Some s' \<Longrightarrow> inv_account fetch codes s'"
  by (auto simp add: inv_account_def main_step_def mset_sort_Slice
           split: main_pc.splits if_splits option.splits)

subsection \<open>The sort orders by the key\<close>

lemma set_insert_back: "set (insert_back lt x ys) = insert x (set ys)"
  by (induction ys) auto

lemma sorted_insert_back:
  fixes key :: "'a \<Rightarrow> real"
  assumes "\<And>a b. lt a b = (key a < key b)"
    and "sorted_wrt (\<lambda>a b. key b \<le> key a) ys"
  shows "sorted_wrt (\<lambda>a b. key b \<le> key a) (insert_back lt x ys)"
  using assms(2)
proof (induction ys)
  case Nil
  then show ?case by simp
next
  case (Cons y ys)
  show ?case
  proof (cases "key x < key y")
    case True
    with Cons show ?thesis
      by (auto simp add: assms(1) set_insert_back)
  next
    case False
    with Cons.prems show ?thesis
      by (fastforce simp add: assms(1))
  qed
qed

lemma sorted_insert_loop:
  fixes key :: "'a \<Rightarrow> real"
  assumes "\<And>a b. lt a b = (key a < key b)"
    and "sorted_wrt (\<lambda>a b. key b \<le> key a) acc"
  shows "sorted_wrt (\<lambda>a b. key b \<le> key a) (foldl (\<lambda>prefix x. insert_back lt x prefix) acc xs)"
  using assms(2)
proof (induction xs arbitrary: acc)
  case Nil
  then show ?case by simp
next
  case (Cons x xs)
  have "sorted_wrt (\<lambda>a b. key b \<le> key a) (insert_back lt x acc)"
    using assms(1) Cons.prems by (rule sorted_insert_back)
  then show ?case
    by (simp add: Cons.IH)
qed

lemma sorted_sort_Slice:
  fixes key :: "'a \<Rightarrow> real"
  assumes "\<And>a b. lt a b = (key a < key b)"
  shows "sorted (map key (sort_Slice lt xs))"
proof -
  have "sorted_wrt (\<lambda>a b. key b \<le> key a) (foldl (\<lambda>prefix x. insert_back lt x prefix) [] xs)"
    using assms by (rule sorted_insert_loop) simp
  then show ?thesis
    by (simp add: sort_Slice_def sorted_map sorted_wrt_rev)
qed

lemma sorted_by_sort_key: "sorted (map sort_key (sort_Slice growth_less fs))"
  by (rule sorted_sort_Slice) (simp add: growth_less_def sort_key_def)

subsection \<open>The error slot and the result\<close>

lemma inv_result_init: "inv_result (init codes)"
  by (simp add: inv_result_def init_def first_error_def)

lemma inv_result_dispatcher: "inv_result s \<Longrightarrow> dispatcher_step codes s = Some s' \<Longrightarrow> inv_result s'"
  by (auto simp add: inv_result_def dispatcher_step_def
           split: disp_pc.splits if_splits main_pc.splits)

lemma first_error_snoc:
  "first_error (errs @ [err]) = (case first_error errs of None \<Rightarrow> Some err | Some e \<Rightarrow> Some e)"
  by (cases errs) (simp_all add: first_error_def)

lemma inv_result_task:
  assumes "inv_gate codes s" "inv_wait codes s" "inv_result s"
    "task_step fetch codes i s = Some s'"
  shows "inv_result s'"
proof -
  from assms(4) have i: "i < length (tasks s)"
    by (simp add: task_step_def split: if_splits)
  have pos: "finished (tasks s ! i) = 0 \<Longrightarrow> 0 < wg s"
    using assms(1,2) i by (rule unfinished_wg_pos)
  have closed: "mainpc s \<noteq> Ranging \<Longrightarrow> wg s = 0"
    using assms(2) by (auto simp add: inv_wait_def)
  show ?thesis
  proof (cases "mainpc s = Ranging")
    case True
    with assms(3,4) i show ?thesis
      by (auto simp add: inv_result_def task_step_def first_error_snoc
               split: task_pc.splits if_splits sum.splits)
  next
    case False
    then have "wg s = 0" by (rule closed)
    with pos have fin: "finished (tasks s ! i) \<noteq> 0" by auto
    with assms(3,4) i False show ?thesis
      by (auto simp add: inv_result_def task_step_def finished_def
               split: task_pc.splits if_splits sum.splits main_pc.splits)
  qed
qed

lemma inv_result_closer: "inv_result s \<Longrightarrow> closer_step s = Some s' \<Longrightarrow> inv_result s'"
  by (auto simp add: inv_result_def closer_step_def
           split: closer_pc.splits if_splits main_pc.splits)

lemma inv_result_main: "inv_result s \<Longrightarrow> main_step s = Some s' \<Longrightarrow> inv_result s'"
  by (auto simp add: inv_result_def main_step_def sorted_by_sort_key
           split: main_pc.splits if_splits option.splits)

subsection \<open>All invariants hold in every reachable state\<close>

lemma invariant_init: "invariant fetch codes (init codes)"
  by (simp add: invariant_def inv_gate_init inv_wait_init inv_local_init inv_account_init
      inv_result_init)

lemma invariant_step:
  assumes "invariant fetch codes s" "step fetch codes a s = Some s'"
  shows "invariant fetch codes s'"
proof (cases a)
  case DispatcherStep
  with assms show ?thesis
    by (auto simp add: invariant_def step_def split: if_splits
             intro: inv_gate_dispatcher inv_wait_dispatcher inv_local_dispatcher
                    inv_account_dispatcher inv_result_dispatcher)
next
  case (TaskStep i)
  with assms show ?thesis
    by (auto simp add: invariant_def step_def split: if_splits
             intro: inv_gate_task inv_wait_task inv_local_task inv_account_task inv_result_task)
next
  case CloserStep
  with assms show ?thesis
    by (auto simp add: invariant_def step_def split: if_splits
             intro: inv_gate_closer inv_wait_closer inv_local_closer
                    inv_account_closer inv_result_closer)
next
  case MainStep
  with assms show ?thesis
    by (auto simp add: invariant_def step_def split: if_splits
             intro: inv_gate_main inv_wait_main inv_local_main inv_account_main inv_result_main)
qed

lemma invariant_run:
  "invariant fetch codes s \<Longrightarrow> run fetch codes sched s = Some s' \<Longrightarrow> invariant fetch codes s'"
  by (induction sched arbitrary: s) (auto split: option.splits dest: invariant_step)

lemma invariant_reachable:
  "run fetch codes sched (init codes) = Some s \<Longrightarrow> invariant fetch codes s"
  using invariant_init by (rule invariant_run)

subsection \<open>Every step uses up the measure\<close>

lemma remaining_dispatcher:
  "inv_gate codes s \<Longrightarrow> dispatcher_step codes s = Some s'
     \<Longrightarrow> remaining codes s' < remaining codes s"
  by (auto simp add: inv_gate_def dispatcher_step_def remaining_def
           split: disp_pc.splits if_splits)

lemma remaining_task:
  assumes "\<not> panicked s'" "\<not> panicked s" "task_step fetch codes i s = Some s'"
  shows "remaining codes s' < remaining codes s"
proof -
  from assms(3) have i: "i < length (tasks s)"
    by (simp add: task_step_def split: if_splits)
  have ge: "pc_left (tasks s ! i) \<le> tally (\<lambda>i. pc_left) (tasks s)"
    using tally_ge [OF i, of "\<lambda>i. pc_left"] .
  show ?thesis
    using assms i ge
    by (auto simp add: task_step_def remaining_def tally_update
             split: task_pc.splits if_splits sum.splits)
qed

lemma remaining_closer:
  "\<not> panicked s' \<Longrightarrow> \<not> panicked s \<Longrightarrow> closer_step s = Some s'
     \<Longrightarrow> remaining codes s' < remaining codes s"
  by (auto simp add: closer_step_def remaining_def split: closer_pc.splits if_splits)

lemma remaining_main:
  "main_step s = Some s' \<Longrightarrow> remaining codes s' < remaining codes s"
  by (auto simp add: main_step_def remaining_def split: main_pc.splits if_splits option.splits)

lemma remaining_step:
  assumes "invariant fetch codes s" "step fetch codes a s = Some s'"
  shows "remaining codes s' < remaining codes s"
proof -
  have "invariant fetch codes s'"
    using assms by (rule invariant_step)
  then have p': "\<not> panicked s'"
    by (simp add: invariant_def inv_wait_def)
  have p: "\<not> panicked s"
    using assms(1) by (simp add: invariant_def inv_wait_def)
  have g: "inv_gate codes s"
    using assms(1) by (simp add: invariant_def)
  show ?thesis
  proof (cases a)
    case DispatcherStep
    with assms(2) p g show ?thesis
      by (auto simp add: step_def intro: remaining_dispatcher)
  next
    case (TaskStep i)
    with assms(2) p p' show ?thesis
      by (auto simp add: step_def intro: remaining_task)
  next
    case CloserStep
    with assms(2) p p' show ?thesis
      by (auto simp add: step_def intro: remaining_closer)
  next
    case MainStep
    with assms(2) p show ?thesis
      by (auto simp add: step_def intro: remaining_main)
  qed
qed

lemma run_append:
  "run fetch codes (xs @ ys) s =
     (case run fetch codes xs s of None \<Rightarrow> None | Some t \<Rightarrow> run fetch codes ys t)"
  by (induction xs arbitrary: s) (auto split: option.splits)

lemma run_length:
  "invariant fetch codes s \<Longrightarrow> run fetch codes sched s = Some s'
     \<Longrightarrow> length sched + remaining codes s' \<le> remaining codes s"
proof (induction sched arbitrary: s)
  case Nil
  then show ?case by simp
next
  case (Cons a sched)
  from Cons.prems(2) obtain t where t: "step fetch codes a s = Some t"
    and r: "run fetch codes sched t = Some s'"
    by (auto split: option.splits)
  have "invariant fetch codes t" using Cons.prems(1) t by (rule invariant_step)
  then have "length sched + remaining codes s' \<le> remaining codes t"
    using r by (rule Cons.IH)
  moreover have "remaining codes t < remaining codes s"
    using Cons.prems(1) t by (rule remaining_step)
  ultimately show ?case by simp
qed

subsection \<open>Some goroutine can move until the collector has returned\<close>

lemma tally_const:
  assumes "\<And>i. i < length ps \<Longrightarrow> h i (ps ! i) = g i"
  shows "tally h ps = (\<Sum>i<length ps. g i)"
  unfolding tally_def by (rule sum.cong) (use assms in auto)

lemma task_can_step:
  assumes "inv_gate codes s" "inv_wait codes s" "i < length (tasks s)" "tasks s ! i \<noteq> Exited"
  shows "\<exists>s'. task_step fetch codes i s = Some s'"
proof -
  have "live (tasks s ! i) \<le> tally (\<lambda>i. live) (tasks s)"
    using tally_ge [OF assms(3), of "\<lambda>i. live"] .
  with assms(1,4) have lim: "0 < limiter s"
    by (simp add: inv_gate_def live_def)
  from assms(2) have rng: "mainpc s \<noteq> Ranging \<Longrightarrow> foundCh_closed s"
    unfolding inv_wait_def by blast
  show ?thesis
    using assms(3,4) lim rng
    by (auto simp add: task_step_def split: task_pc.splits sum.splits)
qed

lemma progress:
  assumes "invariant fetch codes s" "\<And>fs err. mainpc s \<noteq> Returned fs err"
  shows "\<exists>a s'. step fetch codes a s = Some s'"
proof -
  have g: "inv_gate codes s" and w: "inv_wait codes s"
    using assms(1) by (simp_all add: invariant_def)
  have p: "\<not> panicked s"
    using w by (simp add: inv_wait_def)
  show ?thesis
  proof (cases "\<exists>i<length (tasks s). tasks s ! i \<noteq> Exited")
    case True
    then obtain i where "i < length (tasks s)" "tasks s ! i \<noteq> Exited" by blast
    with g w obtain s' where "task_step fetch codes i s = Some s'"
      using task_can_step by blast
    with p have "step fetch codes (TaskStep i) s = Some s'"
      by (simp add: step_def)
    then show ?thesis by blast
  next
    case False
    then have ex: "\<And>i. i < length (tasks s) \<Longrightarrow> tasks s ! i = Exited" by blast
    have live0: "tally (\<lambda>i. live) (tasks s) = 0"
      using tally_const [of "tasks s" "\<lambda>i. live" "\<lambda>i. 0"] ex by (simp add: live_def)
    have fin: "tally (\<lambda>i. finished) (tasks s) = length (tasks s)"
      using tally_const [of "tasks s" "\<lambda>i. finished" "\<lambda>i. 1"] ex by (simp add: finished_def)
    show ?thesis
    proof (cases "length (tasks s) < length codes")
      case True
      with g live0 have "\<exists>s'. dispatcher_step codes s = Some s'"
        by (auto simp add: inv_gate_def dispatcher_step_def concurrency_def
                 split: disp_pc.splits)
      with p show ?thesis
        by (auto simp add: step_def intro: exI [of _ DispatcherStep])
    next
      case False
      with g have "length (tasks s) = length codes"
        by (simp add: inv_gate_def)
      with fin w have wg0: "wg s = 0"
        by (simp add: inv_wait_def)
      show ?thesis
      proof (cases "closer s = CloserDone")
        case False
        with wg0 have "\<exists>s'. closer_step s = Some s'"
          by (auto simp add: closer_step_def split: closer_pc.splits)
        with p show ?thesis
          by (auto simp add: step_def intro: exI [of _ CloserStep])
      next
        case True
        with w have "foundCh_closed s" "errCh_closed s"
          unfolding inv_wait_def by blast+
        with assms(2) have "\<exists>s'. main_step s = Some s'"
          by (auto simp add: main_step_def split: main_pc.splits option.splits)
        with p show ?thesis
          by (auto simp add: step_def intro: exI [of _ MainStep])
      qed
    qed
  qed
qed

lemma can_return:
  assumes "invariant fetch codes s"
  shows "\<exists>sched s' fs err. run fetch codes sched s = Some s' \<and> mainpc s' = Returned fs err"
  using assms
proof (induction "remaining codes s" arbitrary: s rule: less_induct)
  case less
  show ?case
  proof (cases "\<exists>fs err. mainpc s = Returned fs err")
    case True
    then obtain fs err where "mainpc s = Returned fs err" by blast
    then have "run fetch codes [] s = Some s \<and> mainpc s = Returned fs err" by simp
    then show ?thesis by blast
  next
    case False
    then have "\<And>fs err. mainpc s \<noteq> Returned fs err" by blast
    with less.prems obtain a t where t: "step fetch codes a s = Some t"
      using progress by blast
    have it: "invariant fetch codes t" using less.prems t by (rule invariant_step)
    have "remaining codes t < remaining codes s" using less.prems t by (rule remaining_step)
    then obtain sched s' fs err
      where "run fetch codes sched t = Some s'" "mainpc s' = Returned fs err"
      using less.hyps it by blast
    with t have "run fetch codes (a # sched) s = Some s' \<and> mainpc s' = Returned fs err"
      by simp
    then show ?thesis by blast
  qed
qed

subsection \<open>The state at the return\<close>

lemma mset_concat_upt: "mset (concat (map g [0..<n])) = (\<Sum>i<n. mset (g i))"
  by (induction n) simp_all

lemma length_concat_upt: "length (concat (map g [0..<n])) = (\<Sum>i<n. length (g i))"
  by (induction n) simp_all

lemma mset_filter_upt:
  "mset (filter P [0..<n]) = (\<Sum>i<n. if P i then {#i#} else {#})"
  by (induction n) simp_all

lemma length_filter_sum:
  "length (filter P xs) = (\<Sum>i<length xs. if P (xs ! i) then 1 else 0)"
proof (induction xs rule: rev_induct)
  case Nil
  then show ?case by simp
next
  case (snoc x xs)
  have "(\<Sum>i<length xs. if P ((xs @ [x]) ! i) then 1 else 0)
          = (\<Sum>i<length xs. if P (xs ! i) then 1 else (0::nat))"
    by (rule sum.cong) (simp_all add: nth_append)
  with snoc show ?case by simp
qed

lemma in_tally:
  fixes h :: "nat \<Rightarrow> task_pc \<Rightarrow> 'a multiset"
  shows "x \<in># tally h ps \<Longrightarrow> \<exists>j<length ps. x \<in># h j (ps ! j)"
proof (induction ps rule: rev_induct)
  case Nil
  then show ?case by simp
next
  case (snoc p ps)
  from snoc.prems have "x \<in># tally h ps \<or> x \<in># h (length ps) p"
    by simp
  then show ?case
  proof
    assume "x \<in># tally h ps"
    then obtain j where "j < length ps" "x \<in># h j (ps ! j)"
      using snoc.IH by blast
    then have "j < length (ps @ [p]) \<and> x \<in># h j ((ps @ [p]) ! j)"
      by (simp add: nth_append)
    then show ?thesis by blast
  next
    assume "x \<in># h (length ps) p"
    then have "length ps < length (ps @ [p]) \<and> x \<in># h (length ps) ((ps @ [p]) ! length ps)"
      by simp
    then show ?thesis by blast
  qed
qed

lemma count_nonempty:
  "length (successes fetch codes) + length (failures fetch codes)
     = length (filter (\<lambda>c. c \<noteq> []) codes)"
proof -
  have "length (successes fetch codes) + length (failures fetch codes)
          = (\<Sum>i<length codes.
               length (case task_outcome fetch codes i of Ok fund \<Rightarrow> [fund] | _ \<Rightarrow> [])
               + length (case task_outcome fetch codes i of Fail err \<Rightarrow> [err] | _ \<Rightarrow> []))"
    by (simp add: successes_def failures_def length_concat_upt sum.distrib)
  also have "\<dots> = (\<Sum>i<length codes. if codes ! i \<noteq> [] then 1 else 0)"
    by (rule sum.cong) (auto simp add: task_outcome_def split: sum.splits)
  also have "\<dots> = length (filter (\<lambda>c. c \<noteq> []) codes)"
    by (simp add: length_filter_sum)
  finally show ?thesis .
qed

lemma returned_all_done:
  assumes "invariant fetch codes s" "mainpc s = Returned fs err"
  shows "length (tasks s) = length codes"
    and "i < length (tasks s) \<Longrightarrow> past_body (tasks s ! i)"
proof -
  have g: "inv_gate codes s" and w: "inv_wait codes s"
    using assms(1) by (simp_all add: invariant_def)
  from w assms(2) have wg0: "wg s = 0"
    by (auto simp add: inv_wait_def)
  show "length (tasks s) = length codes"
    using g w wg0 by (rule all_finished)
  show "past_body (tasks s ! i)" if "i < length (tasks s)"
  proof -
    have "finished (tasks s ! i) = 1"
      using g w wg0 that by (rule all_finished)
    then show ?thesis
      by (simp add: finished_def past_body_def split: if_splits)
  qed
qed

lemma returned_accounts:
  assumes "invariant fetch codes s" "mainpc s = Returned fs err"
  shows "mset fs = mset (successes fetch codes)"
    and "mset (errlog s) = mset (failures fetch codes)"
    and "mset (fetched s) = mset (filter (\<lambda>i. codes ! i \<noteq> []) [0..<length codes])"
    and "err = first_error (errlog s)"
    and "sorted (map sort_key fs)"
proof -
  have len: "length (tasks s) = length codes"
    using assms by (rule returned_all_done)
  have past: "\<And>i. i < length (tasks s) \<Longrightarrow> past_body (tasks s ! i)"
    using assms by (rule returned_all_done)
  have acc: "inv_account fetch codes s" and res: "inv_result s"
    using assms(1) by (simp_all add: invariant_def)
  from res assms(2) have fs: "fs = funds s" and e: "err = first_error (errlog s)"
    and srt: "sorted (map sort_key fs)"
    by (auto simp add: inv_result_def)
  have "tally (delivered fetch codes) (tasks s)
          = (\<Sum>i<length (tasks s).
               mset (case task_outcome fetch codes i of Ok fund \<Rightarrow> [fund] | _ \<Rightarrow> []))"
    by (rule tally_const) (auto simp add: delivered_def past split: outcome.splits)
  with acc fs len show "mset fs = mset (successes fetch codes)"
    by (simp add: inv_account_def successes_def mset_concat_upt)
  have "tally (reported fetch codes) (tasks s)
          = (\<Sum>i<length (tasks s).
               mset (case task_outcome fetch codes i of Fail e \<Rightarrow> [e] | _ \<Rightarrow> []))"
    by (rule tally_const) (auto simp add: reported_def past split: outcome.splits)
  with acc len show "mset (errlog s) = mset (failures fetch codes)"
    by (simp add: inv_account_def failures_def mset_concat_upt)
  have "tally (requested codes) (tasks s)
          = (\<Sum>i<length (tasks s). if codes ! i \<noteq> [] then {#i#} else {#})"
  proof (rule tally_const)
    fix i assume "i < length (tasks s)"
    then have "past_body (tasks s ! i)" by (rule past)
    then show "requested codes i (tasks s ! i) = (if codes ! i \<noteq> [] then {#i#} else {#})"
      by (auto simp add: requested_def past_body_def)
  qed
  with acc len show "mset (fetched s) = mset (filter (\<lambda>i. codes ! i \<noteq> []) [0..<length codes])"
    unfolding inv_account_def mset_filter_upt by simp
  show "err = first_error (errlog s)" by (rule e)
  show "sorted (map sort_key fs)" by (rule srt)
qed

lemma fetched_nonempty:
  assumes "invariant fetch codes s" "i \<in> set (fetched s)"
  shows "i < length codes \<and> codes ! i \<noteq> []"
proof -
  have acc: "inv_account fetch codes s" and g: "inv_gate codes s"
    using assms(1) by (simp_all add: invariant_def)
  from assms(2) have "i \<in># mset (fetched s)" by simp
  with acc have "i \<in># tally (requested codes) (tasks s)"
    by (simp add: inv_account_def)
  then obtain j where j: "j < length (tasks s)" "i \<in># requested codes j (tasks s ! j)"
    using in_tally [of i "requested codes" "tasks s"] by blast
  then have "i = j \<and> codes ! j \<noteq> []"
    by (auto simp add: requested_def split: if_splits)
  with j(1) g show ?thesis
    by (auto simp add: inv_gate_def)
qed
section \<open>What the aggregator guarantees\<close>

text \<open>
  The sequence that the collector returns is sorted by the key that the comparison
  compares, the rounded sum \<^verbatim>\<open>Gszzl+1\<close>, and holds the records of the successful
  fetches.
\<close>

lemma returned_sorted_by_key:
  assumes "run fetch codes sched (init codes) = Some s" "mainpc s = Returned fs err"
  shows "sorted (map sort_key fs) \<and> mset fs = mset (successes fetch codes)"
proof -
  have "invariant fetch codes s"
    using assms(1) by (rule invariant_reachable)
  then show ?thesis
    using assms(2) returned_accounts(1,5) by blast
qed

lemma live_tasks_tally:
  "length (filter (\<lambda>p. p \<noteq> Exited) ps) = tally (\<lambda>i. live) ps"
proof (induction ps rule: rev_induct)
  case Nil
  then show ?case by simp
next
  case (snoc p ps)
  then show ?case by (simp add: live_def)
qed

text \<open>
  C2. In every state that an execution of \<^verbatim>\<open>FetchFunds\<close> reaches, whatever the codes,
  the answers of the fetches and the interleaving, at most three calls of
  \<^verbatim>\<open>FetchFund\<close> are in progress; indeed at most three task goroutines have been
  started and have not exited.
\<close>

theorem at_most_three_in_flight:
  assumes "run fetch codes sched (init codes) = Some s"
  shows "in_flight s \<le> 3 \<and> length (filter (\<lambda>p. p \<noteq> Exited) (tasks s)) \<le> 3"
proof -
  have "invariant fetch codes s"
    using assms by (rule invariant_reachable)
  then have "inv_gate codes s"
    by (simp add: invariant_def)
  then have "tally (\<lambda>i. live) (tasks s) \<le> 3"
    by (simp add: inv_gate_def concurrency_def)
  then show ?thesis
    using filter_le_tally [of "tasks s"] by (simp add: in_flight_def live_tasks_tally)
qed

text \<open>
  C3. While the collector has not received from it, the error slot \<^verbatim>\<open>errCh\<close> holds
  the first of the errors that tasks have tried to put into it, and the later ones are
  dropped; when the collector has returned, every failed fetch has made its attempt, and
  the error returned is that first one alone.
\<close>

theorem first_error_wins:
  assumes "run fetch codes sched (init codes) = Some s"
  shows "case mainpc s of
           Returned fs err \<Rightarrow>
             err = first_error (errlog s) \<and> mset (errlog s) = mset (failures fetch codes)
         | _ \<Rightarrow> errCh s = first_error (errlog s)"
proof -
  have i: "invariant fetch codes s"
    using assms by (rule invariant_reachable)
  then have "inv_result s" by (simp add: invariant_def)
  then show ?thesis
    using returned_accounts(2) [OF i]
    by (auto simp add: inv_result_def split: main_pc.splits)
qed

text \<open>
  C4. Every execution can be continued until \<^verbatim>\<open>FetchFunds\<close> returns, and none has
  more than \<open>7 * length codes + 6\<close> steps. When it has returned, the records returned are
  those of all successful fetches (none, when no fetch succeeded), and the error returned
  is the first captured one, which is not nil exactly when some fetch failed.
\<close>

theorem partial_results_with_first_error:
  assumes "run fetch codes sched (init codes) = Some s"
  shows "(\<exists>sched' fs err. FetchFunds fetch (sched @ sched') codes = Some (fs, err))
       \<and> length sched \<le> 7 * length codes + 6
       \<and> (\<forall>fs err. mainpc s = Returned fs err \<longrightarrow>
             mset fs = mset (successes fetch codes)
           \<and> err = first_error (errlog s)
           \<and> (err = None) = (failures fetch codes = [])
           \<and> (successes fetch codes = [] \<longrightarrow> fs = []))"
proof -
  have i: "invariant fetch codes s"
    using assms by (rule invariant_reachable)
  obtain sched' s' fs' err' where r: "run fetch codes sched' s = Some s'"
    and m: "mainpc s' = Returned fs' err'"
    using can_return [OF i] by blast
  have "FetchFunds fetch (sched @ sched') codes = Some (fs', err')"
    using assms r m by (simp add: FetchFunds_def run_append)
  then have ex: "\<exists>sched' fs err. FetchFunds fetch (sched @ sched') codes = Some (fs, err)"
    by blast
  have "length sched + remaining codes s \<le> remaining codes (init codes)"
    using invariant_init assms by (rule run_length)
  then have bound: "length sched \<le> 7 * length codes + 6"
    by (simp add: remaining_def init_def)
  have ret: "mset fs = mset (successes fetch codes)
           \<and> err = first_error (errlog s)
           \<and> (err = None) = (failures fetch codes = [])
           \<and> (successes fetch codes = [] \<longrightarrow> fs = [])" if "mainpc s = Returned fs err" for fs err
  proof -
    note a = returned_accounts [OF i that]
    have "length (errlog s) = length (failures fetch codes)"
      using a(2) by (rule mset_eq_length)
    then have "(errlog s = []) = (failures fetch codes = [])"
      by auto
    moreover have "(err = None) = (errlog s = [])"
      using a(4) by (simp add: first_error_def split: list.splits)
    moreover have "fs = []" if "successes fetch codes = []"
      using a(1) that by simp
    ultimately show ?thesis
      using a(1,4) by simp
  qed
  show ?thesis
  proof (intro conjI allI impI)
    show "\<exists>sched' fs err. FetchFunds fetch (sched @ sched') codes = Some (fs, err)"
      by (rule ex)
    show "length sched \<le> 7 * length codes + 6"
      by (rule bound)
  qed (use ret in simp_all)
qed

lemma in_successes:
  assumes "fund \<in> set (successes fetch codes)"
  shows "\<exists>i<length codes. codes ! i \<noteq> [] \<and> fetch i (codes ! i) = Inr fund"
proof -
  from assms obtain i where "i < length codes" "task_outcome fetch codes i = Ok fund"
    by (auto simp add: successes_def split: outcome.splits)
  then show ?thesis
    by (auto simp add: task_outcome_def split: if_splits sum.splits)
qed

lemma in_failures:
  assumes "e \<in> set (failures fetch codes)"
  shows "\<exists>i<length codes. codes ! i \<noteq> []
           \<and> (\<exists>e0. fetch i (codes ! i) = Inl e0 \<and> e = Errorf (Some e0) (''code:'' @ codes ! i))"
proof -
  from assms obtain i where "i < length codes" "task_outcome fetch codes i = Fail e"
    by (auto simp add: failures_def split: outcome.splits)
  then show ?thesis
    by (auto simp add: task_outcome_def split: if_splits sum.splits)
qed

text \<open>
  C6. \<^verbatim>\<open>FetchFund\<close> is never called for an empty code. When \<^verbatim>\<open>FetchFunds\<close> has
  returned, it has been called once for each non-empty code, the records returned and the
  failures together are as many as the non-empty codes, every record returned is the answer
  to the fetch of a non-empty code, the error returned is the failure of the fetch of a
  non-empty code, and a list of empty codes only gives no record and no error.
\<close>

theorem empty_identifiers_skipped:
  assumes "run fetch codes sched (init codes) = Some s"
  shows "(\<forall>i\<in>set (fetched s). i < length codes \<and> codes ! i \<noteq> [])
       \<and> (\<forall>fs err. mainpc s = Returned fs err \<longrightarrow>
             mset (fetched s) = mset (filter (\<lambda>i. codes ! i \<noteq> []) [0..<length codes])
           \<and> length fs + length (errlog s) = length (filter (\<lambda>c. c \<noteq> []) codes)
           \<and> (\<forall>fund\<in>set fs. \<exists>i<length codes. codes ! i \<noteq> [] \<and> fetch i (codes ! i) = Inr fund)
           \<and> (\<forall>e. err = Some e \<longrightarrow>
                 (\<exists>i<length codes. codes ! i \<noteq> []
                    \<and> (\<exists>e0. fetch i (codes ! i) = Inl e0
                           \<and> e = Errorf (Some e0) (''code:'' @ codes ! i))))
           \<and> ((\<forall>c\<in>set codes. c = []) \<longrightarrow> fs = [] \<and> err = None))"
proof -
  have i: "invariant fetch codes s"
    using assms by (rule invariant_reachable)
  have ret: "mset (fetched s) = mset (filter (\<lambda>i. codes ! i \<noteq> []) [0..<length codes])
           \<and> length fs + length (errlog s) = length (filter (\<lambda>c. c \<noteq> []) codes)
           \<and> (\<forall>fund\<in>set fs. \<exists>i<length codes. codes ! i \<noteq> [] \<and> fetch i (codes ! i) = Inr fund)
           \<and> (\<forall>e. err = Some e \<longrightarrow>
                 (\<exists>i<length codes. codes ! i \<noteq> []
                    \<and> (\<exists>e0. fetch i (codes ! i) = Inl e0
                           \<and> e = Errorf (Some e0) (''code:'' @ codes ! i))))
           \<and> ((\<forall>c\<in>set codes. c = []) \<longrightarrow> fs = [] \<and> err = None)"
    if "mainpc s = Returned fs err" for fs err
  proof -
    note a = returned_accounts [OF i that]
    have "length fs = length (successes fetch codes)"
      using a(1) by (rule mset_eq_length)
    moreover have "length (errlog s) = length (failures fetch codes)"
      using a(2) by (rule mset_eq_length)
    ultimately have n: "length fs + length (errlog s) = length (filter (\<lambda>c. c \<noteq> []) codes)"
      by (simp add: count_nonempty)
    have "fs = [] \<and> err = None" if "\<forall>c\<in>set codes. c = []"
    proof -
      from that have "filter (\<lambda>c. c \<noteq> []) codes = []"
        by (simp add: filter_empty_conv)
      with n have "fs = []" "errlog s = []" by simp_all
      with a(4) show ?thesis by (simp add: first_error_def)
    qed
    moreover have "\<exists>i<length codes. codes ! i \<noteq> [] \<and> fetch i (codes ! i) = Inr fund"
      if "fund \<in> set fs" for fund
    proof -
      from that a(1) have "fund \<in> set (successes fetch codes)"
        by (metis set_mset_mset)
      then show ?thesis by (rule in_successes)
    qed
    moreover have "\<exists>i<length codes. codes ! i \<noteq> []
                    \<and> (\<exists>e0. fetch i (codes ! i) = Inl e0
                           \<and> e = Errorf (Some e0) (''code:'' @ codes ! i))"
      if "err = Some e" for e
    proof -
      from that a(4) have "e \<in> set (errlog s)"
        by (auto simp add: first_error_def split: list.splits)
      with a(2) have "e \<in> set (failures fetch codes)"
        by (metis set_mset_mset)
      then show ?thesis by (rule in_failures)
    qed
    ultimately show ?thesis
      using a(3) n by blast
  qed
  show ?thesis
  proof (intro conjI ballI allI impI)
    fix j assume "j \<in> set (fetched s)"
    with i have "j < length codes \<and> codes ! j \<noteq> []"
      by (rule fetched_nonempty)
    then show "j < length codes" "codes ! j \<noteq> []" by simp_all
  qed (use ret in simp_all)
qed

section \<open>The concrete runs\<close>

lemmas step_eval =
  init_def step_def dispatcher_step_def task_step_def closer_step_def main_step_def
  concurrency_def sort_Slice_def

lemma demo_fetch_values:
  "fetch_via demo_http i ''180012'' = Inr demo_fund"
  "fetch_via demo_http i ''519697''
     = Inl (Errorf (Some (Lib ''timeout''))
              ''do request, url:http://fundgz.1234567.com.cn/js/519697.js'')"
  "fetch_via demo_http i ''163406''
     = Inl (Errorf (Some (Lib ''timeout''))
              ''do request, url:http://fundgz.1234567.com.cn/js/163406.js'')"
  by (simp_all add: fetch_via_def FetchFund_def demo_http_def canned_unmarshal)

lemma demo_peak_run:
  "\<exists>s. run (fetch_via demo_http) demo_codes demo_peak (init demo_codes) = Some s
       \<and> tasks s = [Fetching, Exited, Fetching, Fetching]"
  by (simp add: demo_peak_def demo_codes_def step_eval)

lemma demo_full_run:
  "\<exists>s. run (fetch_via demo_http) demo_codes (demo_peak @ demo_rest) (init demo_codes) = Some s
       \<and> mainpc s = Returned [demo_fund] (Some (demo_error ''519697''))
       \<and> errlog s = [demo_error ''519697'', demo_error ''163406'']
       \<and> fetched s = [0, 2, 3]"
  by (simp add: demo_peak_def demo_rest_def demo_codes_def step_eval demo_fetch_values
        demo_error_def)

lemma demo_outcomes:
  "successes (fetch_via demo_http) demo_codes = [demo_fund]"
  "failures (fetch_via demo_http) demo_codes = [demo_error ''519697'', demo_error ''163406'']"
  by (simp_all add: successes_def failures_def task_outcome_def demo_codes_def
        demo_fetch_values demo_error_def upt_conv_Cons)

theorem at_most_three_in_flight_witness:
  "run (fetch_via demo_http) demo_codes demo_peak (init demo_codes) \<noteq> None
   \<and> in_flight (the (run (fetch_via demo_http) demo_codes demo_peak (init demo_codes))) = 3
   \<and> in_flight (the (run (fetch_via demo_http) demo_codes demo_peak (init demo_codes))) \<le> 3"
proof -
  obtain s where r: "run (fetch_via demo_http) demo_codes demo_peak (init demo_codes) = Some s"
    and t: "tasks s = [Fetching, Exited, Fetching, Fetching]"
    using demo_peak_run by blast
  from at_most_three_in_flight [OF r] r t show ?thesis
    by (simp add: in_flight_def)
qed

theorem first_error_wins_witness:
  "run (fetch_via demo_http) demo_codes (demo_peak @ demo_rest) (init demo_codes) \<noteq> None
   \<and> mainpc (the (run (fetch_via demo_http) demo_codes (demo_peak @ demo_rest) (init demo_codes)))
       = Returned [demo_fund] (Some (demo_error ''519697''))
   \<and> errlog (the (run (fetch_via demo_http) demo_codes (demo_peak @ demo_rest) (init demo_codes)))
       = [demo_error ''519697'', demo_error ''163406'']
   \<and> mset [demo_error ''519697'', demo_error ''163406'']
       = mset (failures (fetch_via demo_http) demo_codes)"
proof -
  obtain s
    where r: "run (fetch_via demo_http) demo_codes (demo_peak @ demo_rest) (init demo_codes) = Some s"
    and m: "mainpc s = Returned [demo_fund] (Some (demo_error ''519697''))"
    and e: "errlog s = [demo_error ''519697'', demo_error ''163406'']"
    using demo_full_run by blast
  from first_error_wins [OF r] r m e show ?thesis
    by simp
qed

theorem partial_results_with_first_error_witness:
  "FetchFunds (fetch_via demo_http) (demo_peak @ demo_rest) demo_codes
     = Some ([demo_fund], Some (demo_error ''519697''))
   \<and> mset [demo_fund] = mset (successes (fetch_via demo_http) demo_codes)
   \<and> failures (fetch_via demo_http) demo_codes \<noteq> []
   \<and> length (demo_peak @ demo_rest) \<le> 7 * length demo_codes + 6"
proof -
  obtain s
    where r: "run (fetch_via demo_http) demo_codes (demo_peak @ demo_rest) (init demo_codes) = Some s"
    and m: "mainpc s = Returned [demo_fund] (Some (demo_error ''519697''))"
    using demo_full_run by blast
  have "FetchFunds (fetch_via demo_http) (demo_peak @ demo_rest) demo_codes
          = Some ([demo_fund], Some (demo_error ''519697''))"
    using r m by (simp add: FetchFunds_def)
  with partial_results_with_first_error [OF r] m show ?thesis
    by auto
qed

theorem empty_identifiers_skipped_witness:
  "run (fetch_via demo_http) demo_codes (demo_peak @ demo_rest) (init demo_codes) \<noteq> None
   \<and> fetched (the (run (fetch_via demo_http) demo_codes (demo_peak @ demo_rest) (init demo_codes)))
       = [0, 2, 3]
   \<and> demo_codes ! 0 \<noteq> [] \<and> demo_codes ! 2 \<noteq> [] \<and> demo_codes ! 3 \<noteq> []
   \<and> length [demo_fund] + length [demo_error ''519697'', demo_error ''163406'']
       = length (filter (\<lambda>c. c \<noteq> []) demo_codes)"
proof -
  obtain s
    where r: "run (fetch_via demo_http) demo_codes (demo_peak @ demo_rest) (init demo_codes) = Some s"
    and m: "mainpc s = Returned [demo_fund] (Some (demo_error ''519697''))"
    and e: "errlog s = [demo_error ''519697'', demo_error ''163406'']"
    and f: "fetched s = [0, 2, 3]"
    using demo_full_run by blast
  from empty_identifiers_skipped [OF r] r m e f show ?thesis
    by auto
qed

lemma tiny_parse:
  "strconv_ParseFloat ''2e-17'' = Some (Inr (f64_round (2 / 10 ^ 17)))"
  "strconv_ParseFloat ''1e-17'' = Some (Inr (f64_round (1 / 10 ^ 17)))"
  "strconv_ParseFloat ''1.0000'' = Some (Inr 1)"
  by (simp_all add: float_eval f64_eval)

lemma tiny_scan:
  "scan_object (bytes_TrimSuffix (bytes_TrimPrefix (tiny_body ''000001'' ''2e-17'') bodyPrefix)
                  bodySuffix)
     = Some [(''fundcode'', ''000001''), (''name'', ''A''), (''jzrq'', ''2019-10-31''),
             (''dwjz'', ''1.0000''), (''gsz'', ''1.0000''), (''gszzl'', ''2e-17''),
             (''gztime'', ''2019-11-01 15:00'')]"
  "scan_object (bytes_TrimSuffix (bytes_TrimPrefix (tiny_body ''000002'' ''1e-17'') bodyPrefix)
                  bodySuffix)
     = Some [(''fundcode'', ''000002''), (''name'', ''A''), (''jzrq'', ''2019-10-31''),
             (''dwjz'', ''1.0000''), (''gsz'', ''1.0000''), (''gszzl'', ''1e-17''),
             (''gztime'', ''2019-11-01 15:00'')]"
  by (simp_all add: scan_eval tiny_body_def)

lemma tiny_fetch_values:
  "fetch_via tiny_http i ''000001'' = Inr tiny_hi"
  "fetch_via tiny_http i ''000002'' = Inr tiny_lo"
  by (simp_all add: fetch_via_def FetchFund_def tiny_http_def json_Unmarshal_def tiny_scan
        store_eval tiny_parse tiny_hi_def tiny_lo_def)

lemma tiny_keys:
  "growth_less tiny_lo tiny_hi = False"
  "Gszzl tiny_lo < Gszzl tiny_hi"
  by (simp_all add: growth_less_def tiny_hi_def tiny_lo_def f64_eval)

text \<open>
  C1. The claim fails on the code for growths so small that the sum \<^verbatim>\<open>Gszzl+1\<close>
  rounds to 1: the comparison then finds neither record less than the other, the sort
  leaves them in their order of arrival, and \<^verbatim>\<open>FetchFunds\<close> returns the record of the
  larger growth before the record of the smaller one.
\<close>

theorem tiny_growth_not_sorted:
  "FetchFunds (fetch_via tiny_http) tiny_schedule [''000001'', ''000002'']
     = Some ([tiny_hi, tiny_lo], None)
   \<and> Gszzl tiny_lo < Gszzl tiny_hi"
  by (simp add: FetchFunds_def tiny_schedule_def step_eval tiny_fetch_values tiny_keys)

end
